(* ===== verification/Prelude.thy ===== *)
theory Prelude
  imports Main "HOL-Library.Word" "HOL-Library.Multiset"
begin

text \<open>
  Shared vocabulary of the development: the machine types of the Go source
  (\<^verbatim>\<open>byte\<close>, \<^verbatim>\<open>uint16\<close>, \<^verbatim>\<open>uint32\<close>, \<^verbatim>\<open>uint64\<close>), the little-endian word codec of
  \<^verbatim>\<open>encoding/binary\<close>, the padding of wire values to a 32-bit boundary, the
  conversion between Go strings and bytes, and generic lemmas on lists and
  words. The three collections \<open>wire_simps\<close>, \<open>op_defs\<close> and \<open>frame_simps\<close> gather
  the codec equations, the definitions of the state-changing operations and the
  frame conditions of those operations.
\<close>

unbundle bit_operations_syntax

named_theorems wire_simps \<open>equations of the byte-level codecs\<close>
named_theorems op_defs \<open>definitions of the operations on the connection state\<close>
named_theorems frame_simps \<open>fields an operation leaves unchanged\<close>

type_synonym byte = "8 word"
type_synonym bytes = "byte list"
type_synonym u16 = "16 word"
type_synonym u32 = "32 word"
type_synonym u64 = "64 word"

text \<open>A file descriptor number; \<open>-1\<close> marks a descriptor that was given away.\<close>

type_synonym fd = int

section \<open>Little-endian words\<close>

text \<open>\<^verbatim>\<open>binary.LittleEndian.PutUint32\<close>.\<close>

definition le32 :: "u32 \<Rightarrow> bytes" where
  "le32 w = [ucast w, ucast (drop_bit 8 w), ucast (drop_bit 16 w), ucast (drop_bit 24 w)]"

text \<open>
  \<^verbatim>\<open>binary.LittleEndian.Uint32\<close>. Go panics on fewer than four bytes; every use in the
  model stands behind the length check the source makes, so the last equation
  is never used by it.
\<close>

fun u32le :: "bytes \<Rightarrow> u32" where
  "u32le (b0 # b1 # b2 # b3 # _) =
     ucast b0 OR push_bit 8 (ucast b1) OR push_bit 16 (ucast b2) OR push_bit 24 (ucast b3)"
| "u32le _ = 0"

lemma length_le32 [simp, wire_simps]: "length (le32 w) = 4"
  by (simp add: le32_def)

lemma le32_neq_Nil [simp]: "le32 w \<noteq> []"
  by (simp add: le32_def)

lemma byte_bit_high [simp]:
  "bit (b :: byte) (8 + n) = False" "bit (b :: byte) (16 + n) = False" "bit (b :: byte) (24 + n) = False"
  by (auto dest: bit_imp_le_length)

lemma u32le_le32 [simp, wire_simps]: "u32le (le32 w @ xs) = w"
proof (rule bit_word_eqI)
  fix n assume "n < LENGTH(32)"
  then consider "n < 8" | "8 \<le> n" "n < 16" | "16 \<le> n" "n < 24" | "24 \<le> n" "n < 32"
    by fastforce
  then show "bit (u32le (le32 w @ xs)) n \<longleftrightarrow> bit w n"
    by cases (auto simp: le32_def bit_simps)
qed

lemma u32le_le32_0 [simp, wire_simps]: "u32le (le32 w) = w"
  using u32le_le32 [of w "[]"] by simp

lemma le32_u32le [wire_simps]: "length bs = 4 \<Longrightarrow> le32 (u32le bs) = bs"
proof -
  assume "length bs = 4"
  then obtain b0 b1 b2 b3 where bs: "bs = [b0, b1, b2, b3]"
    by (auto simp: numeral_eq_Suc length_Suc_conv)
  show ?thesis
    by (auto simp: bs le32_def bit_eq_iff bit_simps)
qed

lemma u32le_take [simp]: "u32le (take 4 bs) = u32le bs"
  by (cases bs rule: u32le.cases) (simp_all add: numeral_eq_Suc)

lemma le32_inject [simp]: "le32 v = le32 w \<longleftrightarrow> v = w"
  by (metis u32le_le32_0)

lemma u32le_append: "4 \<le> length xs \<Longrightarrow> u32le (xs @ ys) = u32le xs"
  by (cases xs rule: u32le.cases) auto

section \<open>Padding to a 32-bit boundary\<close>

text \<open>The padding length the source writes as \<^verbatim>\<open>(4 - (n % 4)) % 4\<close>.\<close>

definition pad4 :: "nat \<Rightarrow> nat" where
  "pad4 n = (4 - n mod 4) mod 4"

lemma pad4_less [simp]: "pad4 n < 4"
  by (simp add: pad4_def)

lemma pad4_le [simp]: "pad4 n \<le> 3"
  using pad4_less [of n] by (simp del: pad4_less)

lemma mod4_cases:
  fixes n :: nat
  obtains q where "n = 4 * q" | q where "n = 4 * q + 1" | q where "n = 4 * q + 2" | q where "n = 4 * q + 3"
proof -
  have "n = 4 * (n div 4) + n mod 4" by simp
  moreover have "n mod 4 \<in> {0, 1, 2, 3}" by auto
  ultimately show ?thesis using that by (metis add_0_right insertE singletonD)
qed

lemma mod4_Suc [simp]: "Suc (4 * q) mod 4 = 1" "Suc (Suc (4 * q)) mod 4 = 2"
  by presburger+

lemma pad4_simps [simp]:
  "pad4 (4 * q) = 0" "pad4 (Suc (4 * q)) = 3" "pad4 (Suc (Suc (4 * q))) = 2" "pad4 (4 * q + 3) = 1"
  by (simp_all add: pad4_def)

lemma add_pad4_mod [simp, wire_simps]: "(n + pad4 n) mod 4 = 0"
  by (cases n rule: mod4_cases) simp_all

lemma pad4_add_mod [simp]: "(pad4 n + n) mod 4 = 0"
  using add_pad4_mod [of n] by (simp add: add.commute)

lemma pad4_dvd [simp]: "4 dvd n + pad4 n"
  using add_pad4_mod [of n] by (simp add: dvd_eq_mod_eq_0)

lemma pad4_0 [simp]: "pad4 0 = 0"
  by (simp add: pad4_def)

lemma pad4_aligned: "n mod 4 = 0 \<Longrightarrow> pad4 n = 0"
  by (simp add: pad4_def)

text \<open>
  The same length on 64-bit words, as \<^verbatim>\<open>(n + 3) &^ 3\<close>: clearing the two low bits
  rounds down to a multiple of four.
\<close>

lemma unat_clear_low_bits: "unat (w AND NOT (3 :: u64)) = unat w div 4 * 4"
proof -
  have "w AND NOT (3 :: u64) = push_bit 2 (drop_bit 2 w)"
  proof -
    have three: "bit (3 :: u64) n \<longleftrightarrow> n < 2" if "n < 64" for n
    proof -
      have "(3 :: u64) = mask 2" by (simp add: mask_eq_exp_minus_1)
      then show ?thesis using that by (simp only: bit_mask_iff) simp
    qed
    show ?thesis
    proof (rule bit_word_eqI)
      fix n assume n: "n < LENGTH(64)"
      show "bit (w AND NOT 3) n \<longleftrightarrow> bit (push_bit 2 (drop_bit 2 w)) n"
        unfolding bit_and_iff bit_not_iff bit_push_bit_iff bit_drop_bit_eq
        using n three [of n] by (auto simp del: add_2_eq_Suc)
    qed
  qed
  moreover have "unat (push_bit 2 (drop_bit 2 w)) = unat w div 4 * 4"
  proof -
    have "unat w div 4 * 4 < 2 ^ 64"
      using unsigned_less [of w, where ?'a = nat] by simp
    then show ?thesis
      by (simp add: unsigned_push_bit_eq unsigned_drop_bit_eq drop_bit_eq_div push_bit_eq_mult
          take_bit_eq_mod mult.commute unat_word_ariths unat_div)
  qed
  ultimately show ?thesis by simp
qed

lemma round_up_pad4: "(n + 3) div 4 * 4 = n + pad4 n"
  by (cases n rule: mod4_cases) simp_all

definition round4 :: "u64 \<Rightarrow> u64" where
  "round4 n = (n + 3) AND NOT 3"

lemma unat_ucast_64 [simp]: "unat (ucast (w :: u32) :: u64) = unat w"
  using unsigned_less [of w, where ?'a = nat]
  by (simp add: unsigned_ucast_eq take_bit_nat_eq_self)

lemma unat_round4 [simp]: "unat (round4 (ucast (w :: u32))) = unat w + pad4 (unat w)"
proof -
  have "unat w < 2 ^ 32" using unsigned_less [of w, where ?'a = nat] by simp
  then have "unat ((ucast w :: u64) + 3) = unat w + 3"
    by (subst unat_add_lem [THEN iffD1]) simp_all
  then show ?thesis by (simp only: round4_def unat_clear_low_bits round_up_pad4)
qed

section \<open>Go strings and bytes\<close>

text \<open>
  A Go string is a sequence of bytes. The model writes it as a HOL \<^typ>\<open>string\<close>,
  whose characters are exactly the 256 byte values, and converts at the wire.
\<close>

definition byte_of_char :: "char \<Rightarrow> byte" where
  "byte_of_char c = word_of_nat (of_char c)"

definition char_of_byte :: "byte \<Rightarrow> char" where
  "char_of_byte b = char_of (unat b)"

definition string_bytes :: "string \<Rightarrow> bytes" where
  "string_bytes s = map byte_of_char s"

definition bytes_string :: "bytes \<Rightarrow> string" where
  "bytes_string bs = map char_of_byte bs"

lemma char_of_byte_of_char [simp]: "char_of_byte (byte_of_char c) = c"
  by (simp add: char_of_byte_def byte_of_char_def unat_of_nat)

lemma byte_of_char_of_byte [simp]: "byte_of_char (char_of_byte b) = b"
proof -
  have "unat b < 256" using unsigned_less [of b] by simp
  then show ?thesis by (simp add: char_of_byte_def byte_of_char_def)
qed

lemma length_string_bytes [simp]: "length (string_bytes s) = length s"
  by (simp add: string_bytes_def)

lemma bytes_string_string_bytes [simp]: "bytes_string (string_bytes s) = s"
  by (simp add: bytes_string_def string_bytes_def comp_def)

lemma string_bytes_bytes_string [simp]: "string_bytes (bytes_string bs) = bs"
  by (simp add: bytes_string_def string_bytes_def comp_def)

section \<open>Formatting\<close>

text \<open>
  The verbs of \<^verbatim>\<open>fmt\<close> that the error texts use: \<^verbatim>\<open>%d\<close> for a count (\<open>digits\<close>) and for a signed number
  (\<open>fmt_d\<close>), and \<^verbatim>\<open>%q\<close> (\<open>fmt_q\<close>) for texts of ASCII characters; a byte from 128 on, which
  \<^verbatim>\<open>%q\<close> decodes as UTF-8 first, is kept as it is.
\<close>

definition digit :: "nat \<Rightarrow> char" where
  "digit n = char_of (48 + n)"

fun digits :: "nat \<Rightarrow> string" where
  "digits n = (if n < 10 then [digit n] else digits (n div 10) @ [digit (n mod 10)])"

declare digits.simps [simp del]

definition fmt_d :: "int \<Rightarrow> string" where
  "fmt_d n = (if n < 0 then CHR ''-'' # digits (nat (- n)) else digits (nat n))"

definition hex_digit :: "nat \<Rightarrow> char" where
  "hex_digit n = (if n < 10 then digit n else char_of (87 + n))"

definition quote_char :: "char \<Rightarrow> string" where
  "quote_char c =
     (let n = of_char c :: nat in
      if n = 34 \<or> n = 92 then [CHR 0x5c, c]
      else if n = 7 then [CHR 0x5c, CHR ''a''] else if n = 8 then [CHR 0x5c, CHR ''b'']
      else if n = 9 then [CHR 0x5c, CHR ''t''] else if n = 10 then [CHR 0x5c, CHR ''n'']
      else if n = 11 then [CHR 0x5c, CHR ''v''] else if n = 12 then [CHR 0x5c, CHR ''f'']
      else if n = 13 then [CHR 0x5c, CHR ''r'']
      else if n < 32 \<or> n = 127 then [CHR 0x5c, CHR ''x'', hex_digit (n div 16), hex_digit (n mod 16)]
      else [c])"

definition fmt_q :: "string \<Rightarrow> string" where
  "fmt_q s = [CHR 0x22] @ concat (map quote_char s) @ [CHR 0x22]"

text \<open>Reading a decimal number back.\<close>

definition digit_value :: "char \<Rightarrow> nat" where
  "digit_value c = of_char c - 48"

definition is_digit :: "char \<Rightarrow> bool" where
  "is_digit c \<longleftrightarrow> 48 \<le> (of_char c :: nat) \<and> (of_char c :: nat) \<le> 57"

definition read_digits :: "string \<Rightarrow> nat" where
  "read_digits s = foldl (\<lambda>n c. 10 * n + digit_value c) 0 s"

lemma digit_simps [simp]: "n < 10 \<Longrightarrow> digit_value (digit n) = n" "n < 10 \<Longrightarrow> is_digit (digit n)"
  by (simp_all add: digit_def digit_value_def is_digit_def)

lemma digits_are_digits: "\<forall>c \<in> set (digits n). is_digit c"
  by (induction n rule: digits.induct) (subst digits.simps, auto)

lemma digits_not_empty [simp]: "digits n \<noteq> []"
  by (subst digits.simps) simp

lemma read_digits_digits [simp]: "read_digits (digits n) = n"
proof (induction n rule: digits.induct)
  case (1 n)
  then show ?case by (subst digits.simps) (auto simp: read_digits_def)
qed

lemma digits_inject [simp]: "digits n = digits k \<longleftrightarrow> n = k"
  by (metis read_digits_digits)

text \<open>A number in front of a character that is no digit can be read off a text.\<close>

lemma digits_append_inject:
  assumes "digits n @ c # xs = digits k @ c # ys" "\<not> is_digit c"
  shows "n = k \<and> xs = ys"
proof -
  have "takeWhile is_digit (digits j @ c # zs) = digits j" "dropWhile is_digit (digits j @ c # zs) = c # zs" for j zs
    using digits_are_digits [of j] assms(2) by (simp_all add: takeWhile_append2 dropWhile_append2)
  then show ?thesis using assms(1) by (metis digits_inject list.inject)
qed

lemma digits_no_tail:
  assumes "digits n = digits k @ c # xs"
  shows "is_digit c"
  using digits_are_digits [of n] assms by auto

section \<open>Lists\<close>

lemma take_append_exact [simp]: "n = length xs \<Longrightarrow> take n (xs @ ys) = xs"
  by simp

lemma drop_append_exact [simp]: "n = length xs \<Longrightarrow> drop n (xs @ ys) = ys"
  by simp

lemma take_drop_split: "n \<le> m \<Longrightarrow> take n xs @ drop n (take m xs) = take m xs"
  by (metis append_take_drop_id min.absorb1 take_take)

lemma drop_appendD:
  assumes "drop n xs = a @ b" "a \<noteq> []"
  shows "n + length a + length b = length xs" "drop (n + length a) xs = b"
proof -
  have "length xs - n = length a + length b" using arg_cong [OF assms(1), of length] by simp
  moreover have "0 < length a" using assms(2) by simp
  ultimately show "n + length a + length b = length xs" by linarith
  show "drop (n + length a) xs = b"
    using assms(1) by (metis add.commute append_eq_conv_conj drop_drop)
qed

end
