(* ===== verification/Wire.thy ===== *)
theory Wire
  imports Prelude
begin

text \<open>
  The wire-level vocabulary of \<^verbatim>\<open>wire.go\<close>: limits, the error values of the
  transport and how \<^verbatim>\<open>errors.Is\<close> and \<^verbatim>\<open>errors.As\<close> classify them, the message header
  (\<^verbatim>\<open>parseHeader\<close>), the blocking reader \<^verbatim>\<open>readFrame\<close> and the typed request arguments.
  The lemmas show that \<open>parseHeader\<close> inverts the header layout and that
  \<open>readFrame\<close> returns exactly the messages of a byte stream.
\<close>

section \<open>Limits\<close>

definition HeaderSize :: nat where
  "HeaderSize = 8"

definition displayObjectID :: u32 where
  "displayObjectID = 1"

definition DefaultMaxMessageSize :: u32 where
  "DefaultMaxMessageSize = 2 ^ 20"

definition readChunkSize :: nat where
  "readChunkSize = 64 * 1024"

section \<open>Error values\<close>

text \<open>
  One constructor per sentinel of the source and of the standard library it
  uses, \<open>ProtocolError\<close> and \<open>DisplayError\<close> for the two error structs,
  \<open>Errorf\<close> for an error made from a text alone and \<open>Wrap\<close> for one made with
  \<^verbatim>\<open>%w\<close>, with the texts before and after the wrapped error. \<open>SysError\<close> stands for any other failure of a system call.
\<close>

datatype error =
    ErrMalformedFrame
  | ErrUnknownObject
  | ErrUnknownOpcode
  | ErrDisplayError
  | ErrVersionTooLow
  | ErrGlobalNotFound
  | NetErrClosed
  | IoEOF
  | IoErrUnexpectedEOF
  | IoErrShortWrite
  | OsErrDeadlineExceeded
  | SysError nat
  | Errorf string
  | Wrap string error string
  | ProtocolError (perr_kind: string) (perr_object: u32) (perr_opcode: u16) (perr_size: u32) (perr_cause: error)
  | DisplayError (derr_object: u32) (derr_code: u32) (derr_message: string)

type_synonym 'a result = "error + 'a"

text \<open>The \<^verbatim>\<open>Unwrap\<close> methods of the two structs and of \<^verbatim>\<open>fmt.Errorf\<close> with \<^verbatim>\<open>%w\<close>.\<close>

fun Unwrap :: "error \<Rightarrow> error option" where
  "Unwrap (Wrap _ e _) = Some e"
| "Unwrap (ProtocolError _ _ _ _ e) = Some e"
| "Unwrap (DisplayError _ _ _) = Some ErrDisplayError"
| "Unwrap _ = None"

text \<open>\<^verbatim>\<open>errors.Is\<close>: the error or one it wraps is the target.\<close>

fun errors_Is :: "error \<Rightarrow> error \<Rightarrow> bool" where
  "errors_Is (Wrap pre e post) t = (Wrap pre e post = t \<or> errors_Is e t)"
| "errors_Is (ProtocolError k ob oc sz e) t = (ProtocolError k ob oc sz e = t \<or> errors_Is e t)"
| "errors_Is (DisplayError ob c m) t = (DisplayError ob c m = t \<or> t = ErrDisplayError)"
| "errors_Is e t = (e = t)"

text \<open>\<^verbatim>\<open>errors.As\<close> with a \<^verbatim>\<open>*ProtocolError\<close> target.\<close>

fun as_ProtocolError :: "error \<Rightarrow> bool" where
  "as_ProtocolError (ProtocolError _ _ _ _ _) = True"
| "as_ProtocolError (Wrap _ e _) = as_ProtocolError e"
| "as_ProtocolError _ = False"

lemma errors_Is_refl [simp]: "errors_Is e e"
  by (cases e) simp_all

lemma errors_Is_Unwrap: "Unwrap e = Some e' \<Longrightarrow> errors_Is e' t \<Longrightarrow> errors_Is e t"
  by (cases e) (auto split: if_splits)

section \<open>Frames and headers\<close>

record receivedFrame =
  f_object :: u32
  f_opcode :: u16
  f_body :: bytes

definition parseHeader :: "bytes \<Rightarrow> u32 \<Rightarrow> (u32 \<times> u16 \<times> u32) result" where
  "parseHeader hdr maxSize =
     (if length hdr < HeaderSize then Inl (ProtocolError ''short_header'' 0 0 0 ErrMalformedFrame)
      else
        let object = u32le (take 4 hdr);
            sizeOpcode = u32le (take 4 (drop 4 hdr));
            sz = drop_bit 16 sizeOpcode;
            opcode = ucast (sizeOpcode AND 0xffff) :: u16
        in if sz < 8 then Inl (ProtocolError ''header_size'' object opcode sz ErrMalformedFrame)
           else if sz mod 4 \<noteq> 0 then Inl (ProtocolError ''misaligned_size'' object opcode sz ErrMalformedFrame)
           else if maxSize > 0 \<and> sz > maxSize
             then Inl (ProtocolError ''size_over_limit'' object opcode sz ErrMalformedFrame)
           else Inr (object, opcode, sz))"

text \<open>
  The header the sender writes (\<^verbatim>\<open>sendRequest\<close>): the object, then the size in the
  upper and the opcode in the lower 16 bits.
\<close>

definition header_bytes :: "u32 \<Rightarrow> u16 \<Rightarrow> u32 \<Rightarrow> bytes" where
  "header_bytes object opcode sz = le32 object @ le32 (push_bit 16 sz OR ucast opcode)"

definition frame_size :: "receivedFrame \<Rightarrow> nat" where
  "frame_size f = HeaderSize + length (f_body f)"

definition message_bytes :: "receivedFrame \<Rightarrow> bytes" where
  "message_bytes f =
     header_bytes (f_object f) (f_opcode f) (word_of_nat (frame_size f)) @ f_body f"

text \<open>A frame that has a wire form: the body is word-aligned and its size fits 16 bits.\<close>

definition wf_frame :: "receivedFrame \<Rightarrow> bool" where
  "wf_frame f \<longleftrightarrow> length (f_body f) mod 4 = 0 \<and> frame_size f \<le> 0xffff"

lemma length_header_bytes [simp]: "length (header_bytes ob oc sz) = HeaderSize"
  by (simp add: header_bytes_def HeaderSize_def)

lemma unat_small [simp]: "n \<le> 0xffff \<Longrightarrow> unat (word_of_nat n :: u32) = n"
  by (simp add: unat_of_nat)

lemma size_of_word:
  assumes "sz < (2 ^ 16 :: u32)"
  shows "drop_bit 16 (push_bit 16 sz OR ucast (oc :: u16)) = sz"
proof (rule bit_word_eqI)
  fix n assume "n < LENGTH(32)"
  have "sz = take_bit 16 sz"
    using assms by (simp add: word_unat_eq_iff unsigned_take_bit_eq take_bit_nat_eq_self word_less_nat_alt)
  then have "bit sz n \<Longrightarrow> n < 16"
    by (metis bit_take_bit_iff)
  then show "bit (drop_bit 16 (push_bit 16 sz OR ucast oc)) n \<longleftrightarrow> bit sz n"
    using \<open>n < LENGTH(32)\<close> by (auto simp: bit_simps dest: bit_imp_le_length)
qed

lemma opcode_of_word:
  "(ucast ((push_bit 16 (sz :: u32) OR ucast (oc :: u16)) AND 0xffff) :: u16) = oc"
proof -
  have m: "(0xffff :: u32) = mask 16" by (simp add: mask_eq_exp_minus_1)
  show ?thesis
    unfolding m by (rule bit_word_eqI) (auto simp: bit_simps)
qed

lemma parseHeader_header_bytes:
  assumes "8 \<le> sz" "sz mod 4 = 0" "sz < 2 ^ 16" "mx = 0 \<or> sz \<le> mx"
  shows "parseHeader (header_bytes ob oc sz @ rest) mx = Inr (ob, oc, sz)"
proof -
  have "parseHeader (header_bytes ob oc sz @ rest) mx =
    (if sz < 8 then Inl (ProtocolError ''header_size'' ob oc sz ErrMalformedFrame)
     else if sz mod 4 \<noteq> 0 then Inl (ProtocolError ''misaligned_size'' ob oc sz ErrMalformedFrame)
     else if mx > 0 \<and> sz > mx then Inl (ProtocolError ''size_over_limit'' ob oc sz ErrMalformedFrame)
     else Inr (ob, oc, sz))"
    using size_of_word [OF assms(3), of oc] opcode_of_word [of sz oc]
    by (simp add: parseHeader_def HeaderSize_def header_bytes_def Let_def)
  then show ?thesis using assms by (auto simp: not_less)
qed

lemma parseHeader_append:
  "HeaderSize \<le> length hdr \<Longrightarrow> parseHeader (hdr @ rest) mx = parseHeader hdr mx"
  by (simp add: parseHeader_def HeaderSize_def take_append)

lemma parseHeader_take:
  "HeaderSize \<le> length bs \<Longrightarrow> parseHeader (take HeaderSize bs) mx = parseHeader bs mx"
  by (metis append_take_drop_id length_take min.absorb2 order_refl parseHeader_append)

lemma parseHeader_Inr:
  assumes "parseHeader hdr mx = Inr (ob, oc, sz)"
  shows "8 \<le> unat sz" "unat sz mod 4 = 0" "unat sz \<le> 0xffff" "mx = 0 \<or> sz \<le> mx"
    "HeaderSize \<le> length hdr"
proof -
  have 1: "\<not> sz < 8" "sz mod 4 = 0" "mx = 0 \<or> \<not> sz > mx" "HeaderSize \<le> length hdr"
    and sz: "sz = drop_bit 16 (u32le (take 4 (drop 4 hdr)))"
    using assms by (auto simp: parseHeader_def Let_def word_gt_0 not_less split: if_splits)
  show "8 \<le> unat sz" using 1(1) by (simp add: word_less_nat_alt not_less)
  show "unat sz mod 4 = 0"
    using arg_cong [OF 1(2), of unat] by (simp add: unat_mod)
  show "unat sz \<le> 0xffff"
    using unsigned_less [of "u32le (take 4 (drop 4 hdr))", where ?'a = nat]
    by (simp add: sz drop_bit_eq_div unat_div)
  show "mx = 0 \<or> sz \<le> mx" "HeaderSize \<le> length hdr" using 1 by auto
qed

lemma parseHeader_Inl:
  "parseHeader hdr mx = Inl e \<Longrightarrow> as_ProtocolError e \<and> errors_Is e ErrMalformedFrame"
  by (auto simp: parseHeader_def Let_def split: if_splits)

lemma length_message_bytes [simp]: "length (message_bytes f) = frame_size f"
  by (simp add: message_bytes_def frame_size_def)

lemma wf_frame_size:
  assumes "wf_frame f"
  shows "frame_size f \<le> 0xffff" "frame_size f mod 4 = 0" "8 \<le> frame_size f"
  using assms by (auto simp: wf_frame_def frame_size_def HeaderSize_def mod_add_left_eq [symmetric])

text \<open>The receiver reads back every header field of a well-formed frame.\<close>

lemma parseHeader_message:
  assumes "wf_frame f" "mx = 0 \<or> frame_size f \<le> unat mx"
  shows "parseHeader (message_bytes f @ rest) mx =
    Inr (f_object f, f_opcode f, word_of_nat (frame_size f))"
proof -
  let ?sz = "word_of_nat (frame_size f) :: u32"
  note sz = wf_frame_size [OF assms(1)]
  have "parseHeader (header_bytes (f_object f) (f_opcode f) ?sz @ (f_body f @ rest)) mx =
    Inr (f_object f, f_opcode f, ?sz)"
    by (rule parseHeader_header_bytes)
       (use sz assms(2) in \<open>simp_all add: word_le_nat_alt word_less_nat_alt word_unat_eq_iff unat_mod\<close>)
  then show ?thesis by (simp add: message_bytes_def)
qed

section \<open>The blocking reader\<close>

text \<open>
  \<^verbatim>\<open>io.ReadFull\<close> over a reader that yields the chunks \<open>cs\<close> one \<^verbatim>\<open>Read\<close> at a time
  and then fails with \<open>e\<close>. A read takes at most the bytes asked for and leaves the
  rest of the chunk; an end of file after some bytes becomes
  \<^verbatim>\<open>io.ErrUnexpectedEOF\<close>.
\<close>

fun ReadFull :: "error \<Rightarrow> bytes list \<Rightarrow> nat \<Rightarrow> bytes \<Rightarrow> bytes result \<times> bytes list" where
  "ReadFull e [] n acc =
     (if n = 0 then (Inr acc, [])
      else (Inl (if e = IoEOF \<and> acc \<noteq> [] then IoErrUnexpectedEOF else e), []))"
| "ReadFull e (c # cs) n acc =
     (if n = 0 then (Inr acc, c # cs)
      else if length c \<le> n then ReadFull e cs (n - length c) (acc @ c)
      else (Inr (acc @ take n c), drop n c # cs))"

definition readFrame :: "error \<Rightarrow> bytes list \<Rightarrow> u32 \<Rightarrow> receivedFrame result \<times> bytes list" where
  "readFrame e r maxSize0 =
     (let maxSize = (if maxSize0 = 0 then DefaultMaxMessageSize else maxSize0)
      in case ReadFull e r HeaderSize [] of
           (Inl err, r1) \<Rightarrow> (Inl err, r1)
         | (Inr hdr, r1) \<Rightarrow>
             (case parseHeader hdr maxSize of
                Inl err \<Rightarrow> (Inl err, r1)
              | Inr (object, opcode, sz) \<Rightarrow>
                  if unat sz = HeaderSize
                  then (Inr \<lparr>f_object = object, f_opcode = opcode, f_body = []\<rparr>, r1)
                  else (case ReadFull e r1 (unat sz - HeaderSize) [] of
                          (Inl err, r2) \<Rightarrow> (Inl err, r2)
                        | (Inr body, r2) \<Rightarrow>
                            (Inr \<lparr>f_object = object, f_opcode = opcode, f_body = body\<rparr>, r2))))"

text \<open>How the bytes are split into reads does not matter.\<close>

lemma ReadFull_enough:
  assumes "n \<le> length (concat cs)"
  shows "fst (ReadFull e cs n acc) = Inr (acc @ take n (concat cs))"
    and "concat (snd (ReadFull e cs n acc)) = drop n (concat cs)"
  using assms by (induction e cs n acc rule: ReadFull.induct) auto

lemma ReadFull_short:
  assumes "length (concat cs) < n"
  shows "fst (ReadFull e cs n acc) =
    Inl (if e = IoEOF \<and> acc @ concat cs \<noteq> [] then IoErrUnexpectedEOF else e)"
  using assms by (induction e cs n acc rule: ReadFull.induct) auto

lemma readFrame_message:
  assumes "wf_frame f" "concat cs = message_bytes f @ rest"
    and "mx = 0 \<or> frame_size f \<le> unat mx"
  shows "fst (readFrame e cs mx) = Inr f \<and> concat (snd (readFrame e cs mx)) = rest"
proof -
  let ?mx = "if mx = 0 then DefaultMaxMessageSize else mx"
  let ?hd = "header_bytes (f_object f) (f_opcode f) (word_of_nat (frame_size f))"
  note sz = wf_frame_size [OF assms(1)]
  have mx: "?mx = 0 \<or> frame_size f \<le> unat ?mx"
    using sz assms(3) by (auto simp: DefaultMaxMessageSize_def)
  have h: "HeaderSize \<le> length (concat cs)"
    using sz by (simp add: assms(2) HeaderSize_def)
  obtain r1 where r1: "ReadFull e cs HeaderSize [] = (Inr ?hd, r1)" and c1: "concat r1 = f_body f @ rest"
    using ReadFull_enough [OF h, of e "[]"]
    by (cases "ReadFull e cs HeaderSize []") (auto simp: assms(2) message_bytes_def)
  have ph: "parseHeader ?hd ?mx = Inr (f_object f, f_opcode f, word_of_nat (frame_size f))"
    using parseHeader_message [OF assms(1) mx, of "[]"] by (simp add: message_bytes_def parseHeader_append)
  have n: "frame_size f - HeaderSize = length (f_body f)"
    and z: "frame_size f = HeaderSize \<longleftrightarrow> f_body f = []" by (simp_all add: frame_size_def)
  obtain r2 where r2: "ReadFull e r1 (length (f_body f)) [] = (Inr (f_body f), r2)" and c2: "concat r2 = rest"
    using ReadFull_enough [of "length (f_body f)" r1 e "[]"] c1
    by (cases "ReadFull e r1 (length (f_body f)) []") auto
  show ?thesis
    using sz by (auto simp: readFrame_def r1 Let_def ph z n r2 c1 c2)
qed

section \<open>Objects and request arguments\<close>

text \<open>
  A value of the Go interface \<^verbatim>\<open>Object\<close>: the display, the bootstrap registry, a
  proxy (by its address in the Go heap) or the zombie that stands in for a
  destroyed proxy.
\<close>

type_synonym addr = nat

datatype object = DisplayObj | RegistryObj | ProxyObj addr | ZombieObj addr

datatype argKind = argInvalid | argWord | argString | argArray | argObject | argFD

record Arg =
  arg_kind :: argKind
  arg_word :: u32
  arg_str :: string
  arg_arr :: bytes
  arg_obj :: "object option"

definition zeroArg :: Arg where
  "zeroArg = \<lparr>arg_kind = argInvalid, arg_word = 0, arg_str = [], arg_arr = [], arg_obj = None\<rparr>"

definition ArgUint :: "u32 \<Rightarrow> Arg" where
  "ArgUint v = zeroArg\<lparr>arg_kind := argWord, arg_word := v\<rparr>"

text \<open>An \<^verbatim>\<open>int32\<close> is an \<^typ>\<open>int\<close>; \<^verbatim>\<open>uint32(v)\<close> reads its two's complement.\<close>

definition ArgInt :: "int \<Rightarrow> Arg" where
  "ArgInt v = zeroArg\<lparr>arg_kind := argWord, arg_word := word_of_int v\<rparr>"

definition ArgFixed :: "int \<Rightarrow> Arg" where
  "ArgFixed v = zeroArg\<lparr>arg_kind := argWord, arg_word := word_of_int v\<rparr>"

definition ArgString :: "string \<Rightarrow> Arg" where
  "ArgString v = zeroArg\<lparr>arg_kind := argString, arg_str := v\<rparr>"

definition ArgArray :: "bytes \<Rightarrow> Arg" where
  "ArgArray v = zeroArg\<lparr>arg_kind := argArray, arg_arr := v\<rparr>"

definition ArgObject :: "object option \<Rightarrow> Arg" where
  "ArgObject v = zeroArg\<lparr>arg_kind := argObject, arg_obj := v\<rparr>"

definition ArgFD :: Arg where
  "ArgFD = zeroArg\<lparr>arg_kind := argFD\<rparr>"

lemmas Arg_defs = zeroArg_def ArgUint_def ArgInt_def ArgFixed_def ArgString_def ArgArray_def
  ArgObject_def ArgFD_def

section \<open>Properties\<close>

lemma size_opcode_word:
  "push_bit 16 (drop_bit 16 (w :: u32)) OR ucast (ucast (w AND 0xffff) :: u16) = w"
proof (rule bit_word_eqI)
  have m: "(0xffff :: u32) = mask 16" by (simp add: mask_eq_exp_minus_1)
  fix n assume "n < LENGTH(32)"
  then show "bit (push_bit 16 (drop_bit 16 w) OR ucast (ucast (w AND 0xffff) :: u16)) n \<longleftrightarrow> bit w n"
    unfolding m by (cases "n < 16") (auto simp: bit_simps)
qed

lemma header_bytes_parts:
  assumes "HeaderSize \<le> length hdr"
  defines "w \<equiv> u32le (take 4 (drop 4 hdr))"
  shows "header_bytes (u32le (take 4 hdr)) (ucast (w AND 0xffff)) (drop_bit 16 w) = take HeaderSize hdr"
proof -
  have "take HeaderSize hdr = take 4 hdr @ take 4 (drop 4 hdr)"
    using take_add [of 4 4 hdr] by (simp add: HeaderSize_def)
  moreover have "le32 (u32le (take 4 hdr)) = take 4 hdr" "le32 w = take 4 (drop 4 hdr)"
    unfolding w_def by (rule le32_u32le; use assms(1) in \<open>simp add: HeaderSize_def\<close>)+
  ultimately show ?thesis by (simp only: header_bytes_def size_opcode_word)
qed

text \<open>
  C26: \<^verbatim>\<open>parseHeader\<close> accepts a header exactly when it is the encoding of an object, an
  opcode and a size that is at least 8, a multiple of 4 and within the limit, and
  it returns these three values; every other header is refused.
\<close>

theorem parseHeader_exact:
  "parseHeader hdr mx = Inr (ob, oc, sz) \<longleftrightarrow>
     (\<exists>rest. hdr = header_bytes ob oc sz @ rest) \<and> 8 \<le> sz \<and> sz mod 4 = 0 \<and> sz < 2 ^ 16 \<and>
     (mx = 0 \<or> sz \<le> mx)"
proof
  assume r: "parseHeader hdr mx = Inr (ob, oc, sz)"
  note p = parseHeader_Inr [OF r]
  let ?w = "u32le (take 4 (drop 4 hdr))"
  have v: "ob = u32le (take 4 hdr)" "oc = ucast (?w AND 0xffff)" "sz = drop_bit 16 ?w" "sz mod 4 = 0"
    using r by (auto simp: parseHeader_def Let_def split: if_splits)
  then have "header_bytes ob oc sz = take HeaderSize hdr"
    using header_bytes_parts [OF p(5)] by simp
  then have "hdr = header_bytes ob oc sz @ drop HeaderSize hdr" by (metis append_take_drop_id)
  then show "(\<exists>rest. hdr = header_bytes ob oc sz @ rest) \<and> 8 \<le> sz \<and> sz mod 4 = 0 \<and> sz < 2 ^ 16 \<and>
     (mx = 0 \<or> sz \<le> mx)"
    using p v(4) by (auto simp: word_le_nat_alt word_less_nat_alt)
qed (elim conjE exE, simp only:, rule parseHeader_header_bytes; assumption)

text \<open>
  A stream that ends inside a message gives no frame. The error is
  \<^verbatim>\<open>io.ErrUnexpectedEOF\<close>, except that a stream that ends before the first byte or right
  behind the header gives \<^verbatim>\<open>io.EOF\<close>.
\<close>

lemma readFrame_truncated:
  assumes "wf_frame f" "concat cs = take n (message_bytes f)" "n < frame_size f" "mx = 0 \<or> frame_size f \<le> unat mx"
  shows "fst (readFrame IoEOF cs mx) = Inl (if n = 0 \<or> n = HeaderSize then IoEOF else IoErrUnexpectedEOF)"
proof (cases "n < HeaderSize")
  case True
  then have l: "length (concat cs) = n" using assms(2,3) by simp
  then have "concat cs = [] \<longleftrightarrow> n = 0" by auto
  then show ?thesis
    using ReadFull_short [of cs HeaderSize IoEOF "[]"] True l
    by (cases "ReadFull IoEOF cs HeaderSize []") (simp add: readFrame_def)
next
  case False
  let ?mx = "if mx = 0 then DefaultMaxMessageSize else mx"
  let ?hd = "header_bytes (f_object f) (f_opcode f) (word_of_nat (frame_size f))"
  note sz = wf_frame_size [OF assms(1)]
  have c: "concat cs = ?hd @ take (n - HeaderSize) (f_body f)"
    using assms(2) False by (simp add: message_bytes_def)
  then have h: "HeaderSize \<le> length (concat cs)" by simp
  obtain r1 where r1: "ReadFull IoEOF cs HeaderSize [] = (Inr ?hd, r1)"
      and c1: "concat r1 = take (n - HeaderSize) (f_body f)"
    using ReadFull_enough [OF h, of IoEOF "[]"] by (cases "ReadFull IoEOF cs HeaderSize []") (auto simp: c)
  have mx: "?mx = 0 \<or> frame_size f \<le> unat ?mx" using sz assms(4) by (auto simp: DefaultMaxMessageSize_def)
  have ph: "parseHeader ?hd ?mx = Inr (f_object f, f_opcode f, word_of_nat (frame_size f))"
    using parseHeader_message [OF assms(1) mx, of "[]"] by (simp add: message_bytes_def parseHeader_append)
  have lb: "length (concat r1) < frame_size f - HeaderSize" "concat r1 = [] \<longleftrightarrow> n = HeaderSize"
    using False assms(3) by (auto simp: c1 frame_size_def)
  have "fst (ReadFull IoEOF r1 (frame_size f - HeaderSize) []) =
      Inl (if n = HeaderSize then IoEOF else IoErrUnexpectedEOF)"
    using ReadFull_short [OF lb(1), of IoEOF "[]"] by (auto simp: lb(2) simp del: concat_eq_Nil_conv)
  moreover have "n \<noteq> 0" "frame_size f \<noteq> HeaderSize" using False assms(3) by (auto simp: HeaderSize_def)
  ultimately show ?thesis
    using sz(1) by (cases "ReadFull IoEOF r1 (frame_size f - HeaderSize) []")
      (simp add: readFrame_def r1 Let_def ph)
qed

end
