(* ===== verification/Marshal.thy ===== *)
theory Marshal
  imports Wire
begin

text \<open>
  The request encoders of \<^verbatim>\<open>client.go\<close>: the word, string and array encoders, the two
  argument marshallers (boxed and typed) and the assembly of a message by
  \<^verbatim>\<open>sendRequest\<close> up to the write. A \<^verbatim>\<open>bytes.Buffer\<close> is the byte list written so
  far. \<open>idOf\<close> is the method \<^verbatim>\<open>ID()\<close> of an object, which reads the Go heap.

  The lemmas give the exact bytes of every message, show that the typed and the
  boxed path agree, that the size check of \<^verbatim>\<open>sendRequest\<close> can only fail for
  messages over 65535 bytes, and that a peer reads back the header and the body.
\<close>

section \<open>Encoders\<close>

definition putUint32 :: "bytes \<Rightarrow> u32 \<Rightarrow> bytes" where
  "putUint32 buf v = buf @ le32 v"

definition putString :: "bytes \<Rightarrow> string \<Rightarrow> bytes result" where
  "putString buf v =
     (let strlen = length v + 1
      in if strlen > 0xffff - HeaderSize then Inl (Errorf (''string too long: '' @ digits strlen @ '' bytes''))
         else Inr (putUint32 buf (word_of_nat strlen) @ string_bytes v @ [0]
                     @ replicate ((4 - strlen mod 4) mod 4) 0))"

definition putArray :: "bytes \<Rightarrow> bytes \<Rightarrow> bytes result" where
  "putArray buf v =
     (let arrlen = length v
      in if arrlen > 0xffff - HeaderSize then Inl (Errorf (''array too long: '' @ digits arrlen @ '' bytes''))
         else Inr (putUint32 buf (word_of_nat arrlen) @ v @ replicate ((4 - arrlen mod 4) mod 4) 0))"

definition marshalValue :: "(object \<Rightarrow> u32) \<Rightarrow> bytes \<Rightarrow> Arg \<Rightarrow> bytes result" where
  "marshalValue idOf buf a =
     (case arg_kind a of
        argWord \<Rightarrow> Inr (putUint32 buf (arg_word a))
      | argString \<Rightarrow> putString buf (arg_str a)
      | argArray \<Rightarrow> putArray buf (arg_arr a)
      | argObject \<Rightarrow> (case arg_obj a of
            Some v \<Rightarrow> Inr (putUint32 buf (idOf v))
          | None \<Rightarrow> Inr (putUint32 buf 0))
      | argFD \<Rightarrow> Inr buf
      | argInvalid \<Rightarrow> Inl (Errorf ''unsupported argument: zero or invalid Arg''))"

text \<open>
  The dynamic types a boxed argument can have; \<open>GOther\<close> is any Go type the
  switch does not name (a plain \<^verbatim>\<open>int\<close>, for example).
\<close>

datatype goval =
    GUint32 u32
  | GInt32 int
  | GFixed int
  | GString string
  | GBytes bytes
  | GObject object
  | GNil
  | GUintptr nat
  | GOther string

fun marshalArg :: "(object \<Rightarrow> u32) \<Rightarrow> bytes \<Rightarrow> goval \<Rightarrow> bytes result" where
  "marshalArg idOf buf (GUint32 v) = Inr (putUint32 buf v)"
| "marshalArg idOf buf (GInt32 v) = Inr (putUint32 buf (word_of_int v))"
| "marshalArg idOf buf (GFixed v) = Inr (putUint32 buf (word_of_int v))"
| "marshalArg idOf buf (GString v) = putString buf v"
| "marshalArg idOf buf (GBytes v) = putArray buf v"
| "marshalArg idOf buf (GObject v) = Inr (putUint32 buf (idOf v))"
| "marshalArg idOf buf GNil = Inr (putUint32 buf 0)"
| "marshalArg idOf buf (GUintptr _) = Inr buf"
| "marshalArg idOf buf (GOther t) = Inl (Errorf (''unsupported argument type: '' @ t))"

section \<open>Message assembly\<close>

text \<open>The two argument loops of \<^verbatim>\<open>sendRequest\<close>; the first error ends the request.\<close>

fun marshalArgs :: "(object \<Rightarrow> u32) \<Rightarrow> bytes \<Rightarrow> goval list \<Rightarrow> bytes result" where
  "marshalArgs idOf buf [] = Inr buf"
| "marshalArgs idOf buf (arg # args) =
     (case marshalArg idOf buf arg of
        Inl err \<Rightarrow> Inl (Wrap ''failed to marshal argument: '' err [])
      | Inr buf' \<Rightarrow> marshalArgs idOf buf' args)"

fun marshalValues :: "(object \<Rightarrow> u32) \<Rightarrow> bytes \<Rightarrow> Arg list \<Rightarrow> bytes result" where
  "marshalValues idOf buf [] = Inr buf"
| "marshalValues idOf buf (v # vals) =
     (case marshalValue idOf buf v of
        Inl err \<Rightarrow> Inl (Wrap ''failed to marshal argument: '' err [])
      | Inr buf' \<Rightarrow> marshalValues idOf buf' vals)"

text \<open>
  \<^verbatim>\<open>sendRequest\<close> up to the write: a zero header as placeholder, the arguments, the
  size check, then the header copied over the first eight bytes.
\<close>

definition encodeRequest ::
  "(object \<Rightarrow> u32) \<Rightarrow> u32 \<Rightarrow> u16 \<Rightarrow> goval list \<Rightarrow> Arg list \<Rightarrow> bytes result" where
  "encodeRequest idOf objectID opcode args vals =
     (case marshalArgs idOf (replicate HeaderSize 0) args of
        Inl err \<Rightarrow> Inl err
      | Inr buf1 \<Rightarrow>
          (case marshalValues idOf buf1 vals of
             Inl err \<Rightarrow> Inl err
           | Inr buf \<Rightarrow>
               let bufLen = length buf
               in if bufLen > 0xffff \<or> bufLen mod 4 \<noteq> 0
                  then Inl (Errorf (''invalid message size: '' @ digits bufLen @ '' bytes''))
                  else let sz = word_of_nat bufLen :: u32;
                           header = le32 objectID @ le32 (push_bit 16 sz OR ucast opcode)
                       in Inr (header @ drop 8 buf)))"

section \<open>What the encoders write\<close>

text \<open>The body bytes of one argument, or \<open>None\<close> where the marshaller refuses it.\<close>

definition string_wire :: "string \<Rightarrow> bytes" where
  "string_wire v = le32 (word_of_nat (length v + 1)) @ string_bytes v @ [0] @ replicate (pad4 (length v + 1)) 0"

definition array_wire :: "bytes \<Rightarrow> bytes" where
  "array_wire v = le32 (word_of_nat (length v)) @ v @ replicate (pad4 (length v)) 0"

definition goval_wire :: "(object \<Rightarrow> u32) \<Rightarrow> goval \<Rightarrow> bytes option" where
  "goval_wire idOf g =
     (case g of
        GUint32 v \<Rightarrow> Some (le32 v)
      | GInt32 v \<Rightarrow> Some (le32 (word_of_int v))
      | GFixed v \<Rightarrow> Some (le32 (word_of_int v))
      | GString v \<Rightarrow> if length v + 1 \<le> 0xffff - HeaderSize then Some (string_wire v) else None
      | GBytes v \<Rightarrow> if length v \<le> 0xffff - HeaderSize then Some (array_wire v) else None
      | GObject ob \<Rightarrow> Some (le32 (idOf ob))
      | GNil \<Rightarrow> Some (le32 0)
      | GUintptr _ \<Rightarrow> Some []
      | GOther _ \<Rightarrow> None)"

text \<open>The boxed value that carries the same argument as a typed one.\<close>

definition boxed :: "Arg \<Rightarrow> goval" where
  "boxed a =
     (case arg_kind a of
        argWord \<Rightarrow> GUint32 (arg_word a)
      | argString \<Rightarrow> GString (arg_str a)
      | argArray \<Rightarrow> GBytes (arg_arr a)
      | argObject \<Rightarrow> (case arg_obj a of Some ob \<Rightarrow> GObject ob | None \<Rightarrow> GNil)
      | argFD \<Rightarrow> GUintptr 0
      | argInvalid \<Rightarrow> GOther ''Arg'')"

lemma marshalArg_wire:
  "marshalArg idOf buf g =
     (case goval_wire idOf g of Some bs \<Rightarrow> Inr (buf @ bs)
      | None \<Rightarrow> marshalArg idOf [] g)"
  by (cases g) (auto simp: goval_wire_def putUint32_def putString_def putArray_def Let_def
      string_wire_def array_wire_def pad4_def)

lemma marshalArg_refused: "goval_wire idOf g = None \<Longrightarrow> \<exists>err. marshalArg idOf buf g = Inl err"
  by (cases g) (auto simp: goval_wire_def putString_def putArray_def Let_def split: if_splits)

lemma marshalValue_boxed:
  "arg_kind a \<noteq> argInvalid \<Longrightarrow> marshalValue idOf buf a = marshalArg idOf buf (boxed a)"
  by (simp add: marshalValue_def boxed_def split: argKind.splits option.splits)

lemma marshalValues_boxed:
  "\<forall>a \<in> set vals. arg_kind a \<noteq> argInvalid \<Longrightarrow>
   marshalValues idOf buf vals = marshalArgs idOf buf (map boxed vals)"
  by (induction vals arbitrary: buf) (simp_all add: marshalValue_boxed split: sum.splits)

text \<open>The body of a list of boxed arguments, \<open>None\<close> as soon as one is refused.\<close>

fun body_wire :: "(object \<Rightarrow> u32) \<Rightarrow> goval list \<Rightarrow> bytes option" where
  "body_wire idOf [] = Some []"
| "body_wire idOf (g # gs) =
     (case goval_wire idOf g of
        None \<Rightarrow> None
      | Some bs \<Rightarrow> map_option ((@) bs) (body_wire idOf gs))"

lemma marshalArgs_wire:
  "(\<forall>bs. body_wire idOf gs = Some bs \<longrightarrow> marshalArgs idOf buf gs = Inr (buf @ bs)) \<and>
   (body_wire idOf gs = None \<longrightarrow> (\<exists>err. marshalArgs idOf buf gs = Inl err))"
proof (induction gs arbitrary: buf)
  case (Cons g gs)
  show ?case
  proof (cases "goval_wire idOf g")
    case None
    then show ?thesis using marshalArg_refused [OF None, of buf] by auto
  next
    case (Some bs)
    then have "marshalArg idOf buf g = Inr (buf @ bs)" by (subst marshalArg_wire) simp
    then show ?thesis using Some Cons.IH [of "buf @ bs"] by (auto split: option.splits)
  qed
qed simp

lemma length_goval_wire: "goval_wire idOf g = Some bs \<Longrightarrow> length bs mod 4 = 0"
proof -
  have "(5 + (length v + pad4 (length v + 1))) mod 4 = 0" for v :: "'a list"
    using add_pad4_mod [of "length v + 1"] by presburger
  moreover have "(4 + (length v + pad4 (length v))) mod 4 = 0" for v :: "'a list"
    using add_pad4_mod [of "length v"] by presburger
  ultimately show "goval_wire idOf g = Some bs \<Longrightarrow> length bs mod 4 = 0"
    by (cases g) (auto simp: goval_wire_def string_wire_def array_wire_def split: if_splits)
qed

lemma length_body_wire: "body_wire idOf gs = Some bs \<Longrightarrow> length bs mod 4 = 0"
  by (induction gs arbitrary: bs)
     (auto simp: mod_add_eq [symmetric] dest!: length_goval_wire split: option.splits)

lemma body_wire_append:
  "body_wire idOf (gs @ hs) =
     (case body_wire idOf gs of None \<Rightarrow> None | Some bs \<Rightarrow> map_option ((@) bs) (body_wire idOf hs))"
  by (cases "body_wire idOf hs"; induction gs) (auto split: option.splits)

lemma marshalValue_refused: "goval_wire idOf (boxed a) = None \<Longrightarrow> \<exists>err. marshalValue idOf buf a = Inl err"
  using marshalArg_refused [of idOf "boxed a" buf] marshalValue_boxed [of a idOf buf]
  by (cases "arg_kind a = argInvalid") (auto simp: marshalValue_def)

lemma marshalValues_wire:
  "(\<forall>bs. body_wire idOf (map boxed vals) = Some bs \<longrightarrow> marshalValues idOf buf vals = Inr (buf @ bs)) \<and>
   (body_wire idOf (map boxed vals) = None \<longrightarrow> (\<exists>err. marshalValues idOf buf vals = Inl err))"
proof (induction vals arbitrary: buf)
  case (Cons a vals)
  show ?case
  proof (cases "goval_wire idOf (boxed a)")
    case None
    then show ?thesis using marshalValue_refused [OF None, of buf] by auto
  next
    case (Some bs)
    then have "arg_kind a \<noteq> argInvalid" by (auto simp: boxed_def goval_wire_def)
    with Some have "marshalValue idOf buf a = Inr (buf @ bs)"
      by (subst marshalValue_boxed, simp) (subst marshalArg_wire, simp)
    then show ?thesis using Some Cons.IH [of "buf @ bs"] by (auto split: option.splits)
  qed
qed simp

lemma encodeRequest_wire:
  assumes "body_wire idOf (args @ map boxed vals) = Some body"
  shows "encodeRequest idOf ob oc args vals =
    (if HeaderSize + length body > 0xffff
     then Inl (Errorf (''invalid message size: '' @ digits (HeaderSize + length body) @ '' bytes''))
     else Inr (message_bytes \<lparr>f_object = ob, f_opcode = oc, f_body = body\<rparr>))"
proof -
  obtain b1 b2 where b: "body_wire idOf args = Some b1" "body_wire idOf (map boxed vals) = Some b2"
      "body = b1 @ b2"
    using assms by (auto simp: body_wire_append split: option.splits)
  let ?buf = "replicate HeaderSize 0 @ b1"
  have m: "marshalArgs idOf (replicate HeaderSize 0) args = Inr ?buf"
      "marshalValues idOf ?buf vals = Inr (?buf @ b2)"
    using marshalArgs_wire [of idOf args "replicate HeaderSize 0"] marshalValues_wire [of idOf vals ?buf] b
    by auto
  have al: "length (?buf @ b2) mod 4 = 0"
    using length_body_wire [OF assms] unfolding b(3) HeaderSize_def length_append length_replicate
    by presburger
  show ?thesis
    unfolding encodeRequest_def m sum.case Let_def
    using al by (simp add: b(3) message_bytes_def header_bytes_def frame_size_def HeaderSize_def
        del: of_nat_add)
qed

lemma encodeRequest_refused:
  assumes "body_wire idOf (args @ map boxed vals) = None"
  shows "\<exists>err. encodeRequest idOf ob oc args vals = Inl err"
proof (cases "body_wire idOf args")
  case None
  then show ?thesis
    using marshalArgs_wire [of idOf args "replicate HeaderSize 0"] by (auto simp: encodeRequest_def)
next
  case (Some b1)
  with assms have "body_wire idOf (map boxed vals) = None" by (auto simp: body_wire_append)
  then show ?thesis
    using Some marshalArgs_wire [of idOf args "replicate HeaderSize 0"]
      marshalValues_wire [of idOf vals "replicate HeaderSize 0 @ b1"]
    by (auto simp: encodeRequest_def)
qed

text \<open>The message a request puts on the wire, and when there is none.\<close>

lemma encodeRequest_Inr:
  "encodeRequest idOf ob oc args vals = Inr m \<longleftrightarrow>
   (\<exists>body. body_wire idOf (args @ map boxed vals) = Some body \<and> HeaderSize + length body \<le> 0xffff \<and>
      m = message_bytes \<lparr>f_object = ob, f_opcode = oc, f_body = body\<rparr>)"
proof (cases "body_wire idOf (args @ map boxed vals)")
  case None
  then show ?thesis using encodeRequest_refused [OF None, of ob oc] by auto
next
  case (Some body)
  then show ?thesis by (auto simp: encodeRequest_wire)
qed

lemma encodeRequest_wf:
  assumes "encodeRequest idOf ob oc args vals = Inr m"
  obtains f where "wf_frame f" "m = message_bytes f" "f_object f = ob" "f_opcode f = oc"
    "body_wire idOf (args @ map boxed vals) = Some (f_body f)"
proof -
  obtain body where b: "body_wire idOf (args @ map boxed vals) = Some body" "HeaderSize + length body \<le> 0xffff"
      "m = message_bytes \<lparr>f_object = ob, f_opcode = oc, f_body = body\<rparr>"
    using assms by (auto simp: encodeRequest_Inr)
  show ?thesis
    by (rule that [of "\<lparr>f_object = ob, f_opcode = oc, f_body = body\<rparr>"])
       (use b length_body_wire [OF b(1)] in \<open>simp_all add: wf_frame_def frame_size_def\<close>)
qed

text \<open>
  A typed and a boxed argument that stand for the same protocol value, by the
  constructor that builds the typed one.
\<close>

inductive same_argument :: "Arg \<Rightarrow> goval \<Rightarrow> bool" where
  uint: "same_argument (ArgUint v) (GUint32 v)"
| int: "same_argument (ArgInt i) (GInt32 i)"
| fixed: "same_argument (ArgFixed i) (GFixed i)"
| string: "same_argument (ArgString t) (GString t)"
| array: "same_argument (ArgArray bs) (GBytes bs)"
| obj: "same_argument (ArgObject (Some ob)) (GObject ob)"
| null: "same_argument (ArgObject None) GNil"
| fd: "same_argument ArgFD (GUintptr n)"

lemma marshalValue_same: "same_argument a g \<Longrightarrow> marshalValue idOf buf a = marshalArg idOf buf g"
  by (induction rule: same_argument.induct) (simp_all add: marshalValue_def Arg_defs)

lemma marshalValues_same:
  "list_all2 same_argument vals args \<Longrightarrow> marshalValues idOf buf vals = marshalArgs idOf buf args"
  by (induction arbitrary: buf rule: list_all2_induct) (simp_all add: marshalValue_same split: sum.splits)

section \<open>Properties\<close>

text \<open>Rules that evaluate the encoders on concrete arguments.\<close>

lemmas wire_eval = goval_wire_def string_wire_def array_wire_def HeaderSize_def le32_def pad4_def
  string_bytes_def byte_of_char_def

text \<open>
  C16: \<^verbatim>\<open>sendRequest\<close> marshals successfully exactly when every argument has a wire form
  and the message fits 16 bits of size; the bytes are then the header with the
  object, the opcode and the true size, followed by the wire forms of the boxed
  and the typed arguments in order.
\<close>

theorem encodeRequest_exact:
  "encodeRequest idOf ob oc args vals = Inr m \<longleftrightarrow>
   (\<exists>body. body_wire idOf (args @ map boxed vals) = Some body \<and> HeaderSize + length body \<le> 0xffff \<and>
      m = message_bytes \<lparr>f_object = ob, f_opcode = oc, f_body = body\<rparr>)"
  by (rule encodeRequest_Inr)

text \<open>
  C27: a request with typed arguments is marshalled to the same bytes, or refused
  with the same error, as the request with the corresponding boxed arguments.
\<close>

theorem typed_args_same_bytes:
  assumes "list_all2 same_argument vals args"
  shows "encodeRequest idOf ob oc [] vals = encodeRequest idOf ob oc args []"
  using marshalValues_same [OF assms, of idOf "replicate HeaderSize 0"]
  by (simp add: encodeRequest_def split: sum.splits)

theorem typed_args_same_bytes_witness:
  "encodeRequest (\<lambda>_. 7) 3 1 [] [ArgUint 5, ArgString ''ab'', ArgFD, ArgObject None] =
   encodeRequest (\<lambda>_. 7) 3 1 [GUint32 5, GString ''ab'', GUintptr 9, GNil] []"
  by (rule typed_args_same_bytes) (auto intro: same_argument.intros)

text \<open>
  What one side sends the other side reads back: the blocking reader, fed the
  bytes of an encoded request in any chunks, returns its object, its opcode and
  its arguments' wire forms.
\<close>

lemma encode_readFrame_roundtrip:
  assumes "encodeRequest idOf ob oc args vals = Inr m" "concat cs = m @ rest"
  shows "\<exists>body. fst (readFrame e cs 0) = Inr \<lparr>f_object = ob, f_opcode = oc, f_body = body\<rparr> \<and>
    body_wire idOf (args @ map boxed vals) = Some body \<and> concat (snd (readFrame e cs 0)) = rest"
proof -
  obtain f where f: "wf_frame f" "m = message_bytes f" "f_object f = ob" "f_opcode f = oc"
      "body_wire idOf (args @ map boxed vals) = Some (f_body f)"
    using encodeRequest_wf [OF assms(1)] by blast
  then have "f = \<lparr>f_object = ob, f_opcode = oc, f_body = f_body f\<rparr>" by simp
  then show ?thesis using readFrame_message [OF f(1), of cs rest 0 e] f assms(2) by auto
qed

end
