(* ===== verification/Signature.thy ===== *)
theory Signature
  imports Wire
begin

text \<open>
  The event-body validator of \<^verbatim>\<open>signature.go\<close> and the descriptor count that
  \<^verbatim>\<open>prepareFrame\<close> takes from a signature. A signature is a string of kinds, each
  ended by a comma. Reading the body out of range is a Go panic; the model makes
  it the error \<open>panic\<close>, and the lemmas show that it never happens. The validator
  is equivalent to an abstract grammar of wire values, and for a valid body the
  textual count of \<^verbatim>\<open>fd,\<close> is the number of descriptor arguments.
\<close>

definition panic :: error where
  "panic = Errorf ''runtime error: index out of range''"

definition index_byte :: "bytes \<Rightarrow> nat \<Rightarrow> byte result" where
  "index_byte b i = (if i < length b then Inr (b ! i) else Inl panic)"

definition uint32_at :: "bytes \<Rightarrow> nat \<Rightarrow> u32 result" where
  "uint32_at b pos = (if pos + 4 \<le> length b then Inr (u32le (drop pos b)) else Inl panic)"

text \<open>The inner loop: the kind up to the next comma and the text after the comma.\<close>

fun split_kind :: "string \<Rightarrow> string \<times> string option" where
  "split_kind [] = ([], None)"
| "split_kind (c # cs) =
     (if c = CHR '','' then ([], Some cs)
      else let (k, rest) = split_kind cs in (c # k, rest))"

lemma split_kind_shorter: "split_kind sig = (k, Some rest) \<Longrightarrow> length rest < length sig"
  by (induction sig arbitrary: k) (auto split: if_splits prod.splits)

definition word_kind :: "string \<Rightarrow> bool" where
  "word_kind k \<longleftrightarrow> k \<in> {''int'', ''uint'', ''fixed'', ''object'', ''new_id''}"

text \<open>The body of the \<^verbatim>\<open>switch\<close>: the position after one argument of the given kind.\<close>

definition validate_kind :: "string \<Rightarrow> bytes \<Rightarrow> nat \<Rightarrow> nat result" where
  "validate_kind kind body pos =
     (if length body - pos < 4 then Inl ErrMalformedFrame
      else if word_kind kind then Inr (pos + 4)
      else if kind = ''string'' \<or> kind = ''array'' then
        (case uint32_at body pos of
           Inl e \<Rightarrow> Inl e
         | Inr w \<Rightarrow>
             let n = ucast w :: u64;
                 pos = pos + 4;
                 padded = round4 n
             in if unat padded > length body - pos then Inl ErrMalformedFrame
                else if kind = ''string'' \<and> n > 0 then
                  (case index_byte body (pos + unat n - 1) of
                     Inl e \<Rightarrow> Inl e
                   | Inr b \<Rightarrow> if b \<noteq> 0 then Inl ErrMalformedFrame else Inr (pos + unat padded))
                else Inr (pos + unat padded))
      else Inl (Wrap (''invalid argument kind '' @ fmt_q kind @ '': '') ErrMalformedFrame []))"

function validate_loop :: "string \<Rightarrow> bytes \<Rightarrow> nat \<Rightarrow> error option" where
  "validate_loop sig body pos =
     (if sig = [] then (if pos \<noteq> length body then Some ErrMalformedFrame else None)
      else case split_kind sig of
        (kind, None) \<Rightarrow> Some (Errorf (''invalid signature '' @ fmt_q sig))
      | (kind, Some rest) \<Rightarrow>
          if kind = ''fd'' then validate_loop rest body pos
          else case validate_kind kind body pos of
                 Inl e \<Rightarrow> Some e
               | Inr pos' \<Rightarrow> validate_loop rest body pos')"
  by pat_completeness auto
termination
  by (relation "measure (\<lambda>(sig, body, pos). length sig)")
     (auto dest: split_kind_shorter [OF sym])

declare validate_loop.simps [simp del]

text \<open>\<open>None\<close> is the nil error.\<close>

definition validateEventBody :: "string \<Rightarrow> bytes \<Rightarrow> error option" where
  "validateEventBody sig body = validate_loop sig body 0"

text \<open>\<^verbatim>\<open>strings.Count(sig, "fd,")\<close>: non-overlapping occurrences, from the left.\<close>

fun count_fd :: "string \<Rightarrow> nat" where
  "count_fd [] = 0"
| "count_fd (c # cs) =
     (if take 3 (c # cs) = ''fd,'' then Suc (count_fd (drop 2 cs)) else count_fd cs)"

section \<open>The abstract grammar\<close>

datatype argtype = TWord | TString | TArray | TFd

text \<open>The argument types of a signature, \<open>None\<close> when it has a bad or unfinished kind.\<close>

definition kind_type :: "string \<Rightarrow> argtype option" where
  "kind_type k =
     (if k = ''fd'' then Some TFd else if word_kind k then Some TWord
      else if k = ''string'' then Some TString else if k = ''array'' then Some TArray else None)"

function sig_types :: "string \<Rightarrow> argtype list option" where
  "sig_types sig =
     (if sig = [] then Some []
      else case split_kind sig of
        (kind, None) \<Rightarrow> None
      | (kind, Some rest) \<Rightarrow>
          (case kind_type kind of None \<Rightarrow> None | Some t \<Rightarrow> map_option ((#) t) (sig_types rest)))"
  by pat_completeness auto
termination
  by (relation "measure length") (auto dest: split_kind_shorter [OF sym])

declare sig_types.simps [simp del]

text \<open>The encodings of one argument: which byte strings are a value of the type.\<close>

fun arg_encoding :: "argtype \<Rightarrow> bytes \<Rightarrow> bool" where
  "arg_encoding TWord bs \<longleftrightarrow> length bs = 4"
| "arg_encoding TString bs \<longleftrightarrow>
     (\<exists>n s pad. bs = le32 n @ s @ pad \<and> length s = unat n \<and> length pad = pad4 (unat n) \<and>
        (s \<noteq> [] \<longrightarrow> last s = 0))"
| "arg_encoding TArray bs \<longleftrightarrow>
     (\<exists>n s pad. bs = le32 n @ s @ pad \<and> length s = unat n \<and> length pad = pad4 (unat n))"
| "arg_encoding TFd bs \<longleftrightarrow> bs = []"

fun body_encoding :: "argtype list \<Rightarrow> bytes \<Rightarrow> bool" where
  "body_encoding [] body \<longleftrightarrow> body = []"
| "body_encoding (t # ts) body \<longleftrightarrow> (\<exists>a rest. body = a @ rest \<and> arg_encoding t a \<and> body_encoding ts rest)"

section \<open>One argument\<close>

text \<open>The \<^verbatim>\<open>switch\<close> in terms of the suffix of the body that starts at \<open>pos\<close>.\<close>

lemma validate_kind_string:
  assumes "pos + 4 \<le> length body"
  defines "n \<equiv> unat (u32le (drop pos body))"
  shows "validate_kind ''string'' body pos =
    (if n + pad4 n > length body - (pos + 4) then Inl ErrMalformedFrame
     else if n > 0 \<and> body ! (pos + 4 + n - 1) \<noteq> 0 then Inl ErrMalformedFrame
     else Inr (pos + 4 + (n + pad4 n)))"
  using assms by (auto simp: validate_kind_def word_kind_def uint32_at_def index_byte_def Let_def
      word_less_nat_alt)

lemma validate_kind_array:
  assumes "pos + 4 \<le> length body"
  defines "n \<equiv> unat (u32le (drop pos body))"
  shows "validate_kind ''array'' body pos =
    (if n + pad4 n > length body - (pos + 4) then Inl ErrMalformedFrame
     else Inr (pos + 4 + (n + pad4 n)))"
  using assms by (auto simp: validate_kind_def word_kind_def uint32_at_def Let_def)

lemma validate_kind_word:
  "word_kind k \<Longrightarrow> validate_kind k body pos =
     (if length body - pos < 4 then Inl ErrMalformedFrame else Inr (pos + 4))"
  by (simp add: validate_kind_def)

lemma validate_kind_short: "length body - pos < 4 \<Longrightarrow> validate_kind k body pos = Inl ErrMalformedFrame"
  by (simp add: validate_kind_def)

text \<open>A sized value, cut out of the body at \<open>pos\<close>.\<close>

lemma sized_slice:
  assumes "pos + 4 \<le> length body" and n: "n = unat (u32le (drop pos body))"
    and "n + pad4 n \<le> length body - (pos + 4)"
  shows "take (4 + (n + pad4 n)) (drop pos body) =
    le32 (u32le (drop pos body)) @ take n (drop (pos + 4) body) @ take (pad4 n) (drop (pos + 4 + n) body)"
proof -
  have "le32 (u32le (drop pos body)) = take 4 (drop pos body)"
    using assms(1) le32_u32le [of "take 4 (drop pos body)"] by simp
  then show ?thesis
    by (simp only: take_add drop_drop) (simp add: add.commute add.left_commute)
qed

lemma sized_encoding:
  assumes "pos + 4 \<le> length body" and n: "n = unat (u32le (drop pos body))"
    and le: "n + pad4 n \<le> length body - (pos + 4)"
  shows "arg_encoding TArray (take (4 + (n + pad4 n)) (drop pos body))"
    and "n = 0 \<or> body ! (pos + 4 + n - 1) = 0 \<Longrightarrow>
      arg_encoding TString (take (4 + (n + pad4 n)) (drop pos body))"
proof -
  let ?s = "take n (drop (pos + 4) body)" and ?p = "take (pad4 n) (drop (pos + 4 + n) body)"
  have l: "length ?s = unat (u32le (drop pos body))" "length ?p = pad4 (unat (u32le (drop pos body)))"
    using le n by auto
  note slice = sized_slice [OF assms]
  show "arg_encoding TArray (take (4 + (n + pad4 n)) (drop pos body))"
    unfolding slice arg_encoding.simps using l by blast
  assume z: "n = 0 \<or> body ! (pos + 4 + n - 1) = 0"
  have "last ?s = 0" if "?s \<noteq> []"
  proof -
    have "n > 0" using that by auto
    moreover have "last ?s = body ! (pos + 4 + (n - 1))"
      using that le by (simp add: last_conv_nth)
    ultimately show ?thesis using z by (simp add: add.assoc add.left_commute)
  qed
  then show "arg_encoding TString (take (4 + (n + pad4 n)) (drop pos body))"
    unfolding slice arg_encoding.simps using l by blast
qed

lemma kind_type_cases:
  assumes "kind_type k = Some t"
  obtains "t = TFd" "k = ''fd''" | "t = TWord" "word_kind k" "k \<noteq> ''fd''"
    | "t = TString" "k = ''string''" | "t = TArray" "k = ''array''"
  using assms by (auto simp: kind_type_def split: if_splits)

lemma validate_kind_sound:
  assumes "kind_type k = Some t" "t \<noteq> TFd" "pos \<le> length body" "validate_kind k body pos = Inr pos'"
  shows "pos \<le> pos' \<and> pos' \<le> length body \<and> arg_encoding t (take (pos' - pos) (drop pos body))"
proof -
  have four: "pos + 4 \<le> length body"
    using assms(3,4) validate_kind_short [of body pos k] by (cases "length body - pos < 4") auto
  let ?n = "unat (u32le (drop pos body))"
  from assms(1) show ?thesis
  proof (cases rule: kind_type_cases)
    case 2
    then show ?thesis using assms(4) four by (auto simp: validate_kind_word split: if_splits)
  next
    case 3
    then have le: "?n + pad4 ?n \<le> length body - (pos + 4)" and z: "?n = 0 \<or> body ! (pos + 4 + ?n - 1) = 0"
        and p: "pos' = pos + (4 + (?n + pad4 ?n))"
      using assms(4) by (auto simp: validate_kind_string [OF four] split: if_splits)
    show ?thesis
      using sized_encoding(2) [OF four refl le z] le four 3 by (simp add: p del: arg_encoding.simps)
  next
    case 4
    then have le: "?n + pad4 ?n \<le> length body - (pos + 4)" and p: "pos' = pos + (4 + (?n + pad4 ?n))"
      using assms(4) by (auto simp: validate_kind_array [OF four] split: if_splits)
    show ?thesis
      using sized_encoding(1) [OF four refl le] le four 4 by (simp add: p del: arg_encoding.simps)
  qed (use assms(2) in simp)
qed

lemma validate_kind_complete:
  assumes "kind_type k = Some t" "t \<noteq> TFd" and d: "drop pos body = a @ rest" and "arg_encoding t a"
  shows "validate_kind k body pos = Inr (pos + length a)"
proof -
  have len: "length body - pos = length a + length rest" using arg_cong [OF d, of length] by simp
  have at: "body ! (pos + i) = (a @ rest) ! i" if "0 < length a" for i
  proof -
    have "pos \<le> length body" using that len by linarith
    then show ?thesis using d by (metis nth_drop)
  qed
  from assms(1) show ?thesis
  proof (cases rule: kind_type_cases)
    case 2
    then show ?thesis using assms(4) len by (simp add: validate_kind_word)
  next
    case 3
    then obtain n s pad where a: "a = le32 n @ s @ pad" "length s = unat n" "length pad = pad4 (unat n)"
        "s \<noteq> [] \<Longrightarrow> last s = 0"
      using assms(4) by auto
    have four: "pos + 4 \<le> length body" using len a(1) by simp
    have n: "u32le (drop pos body) = n" by (simp add: d a(1))
    have "body ! (pos + (3 + unat n)) = 0" if "0 < unat n"
    proof -
      have "s \<noteq> []" using that a(2) by auto
      then have "(le32 n @ s @ pad @ rest) ! (4 + (unat n - 1)) = last s"
        using that a(2) by (simp only: nth_append length_le32) (simp add: last_conv_nth nth_append)
      moreover have "4 + (unat n - 1) = 3 + unat n" using that by simp
      ultimately show ?thesis using at [of "3 + unat n"] a \<open>s \<noteq> []\<close> by simp
    qed
    then show ?thesis
      using 3 len a by (auto simp: validate_kind_string [OF four] n add.assoc add.left_commute)
  next
    case 4
    then obtain n s pad where a: "a = le32 n @ s @ pad" "length s = unat n" "length pad = pad4 (unat n)"
      using assms(4) by auto
    have four: "pos + 4 \<le> length body" using len a(1) by simp
    have n: "u32le (drop pos body) = n" by (simp add: d a(1))
    show ?thesis using 4 len a by (auto simp: validate_kind_array [OF four] n)
  qed (use assms(2) in simp)
qed

lemma validate_kind_unknown: "kind_type k = None \<Longrightarrow> \<exists>e. validate_kind k body pos = Inl e"
  by (auto simp: kind_type_def validate_kind_def split: if_splits)

lemma validate_kind_iff:
  assumes "kind_type k = Some t" "t \<noteq> TFd" "pos \<le> length body"
  shows "validate_kind k body pos = Inr p \<longleftrightarrow>
    (\<exists>a b. drop pos body = a @ b \<and> arg_encoding t a \<and> p = pos + length a)"
proof
  assume "validate_kind k body pos = Inr p"
  note snd = validate_kind_sound [OF assms this]
  have "drop pos body = take (p - pos) (drop pos body) @ drop p body"
    using snd append_take_drop_id [of "p - pos" "drop pos body"] by (simp add: drop_drop)
  then show "\<exists>a b. drop pos body = a @ b \<and> arg_encoding t a \<and> p = pos + length a"
  proof (intro exI conjI)
    show "arg_encoding t (take (p - pos) (drop pos body))" using snd by simp
    show "p = pos + length (take (p - pos) (drop pos body))"
      using snd by (auto simp: min_def)
  qed
next
  assume "\<exists>a b. drop pos body = a @ b \<and> arg_encoding t a \<and> p = pos + length a"
  then show "validate_kind k body pos = Inr p"
    using validate_kind_complete [OF assms(1,2)] by blast
qed

section \<open>The validator against the grammar\<close>

lemma split_kind_Nil [simp]: "split_kind sig = (k, Some rest) \<Longrightarrow> sig \<noteq> []"
  by auto

lemma validate_loop_Nil [simp]:
  "validate_loop [] body pos = (if pos \<noteq> length body then Some ErrMalformedFrame else None)"
  by (simp add: validate_loop.simps)

lemma validate_loop_bad:
  "sig \<noteq> [] \<Longrightarrow> split_kind sig = (k, None) \<Longrightarrow>
   validate_loop sig body pos = Some (Errorf (''invalid signature '' @ fmt_q sig))"
  by (simp add: validate_loop.simps)

lemma validate_loop_Cons:
  "split_kind sig = (k, Some rest) \<Longrightarrow>
   validate_loop sig body pos =
     (if k = ''fd'' then validate_loop rest body pos
      else case validate_kind k body pos of Inl e \<Rightarrow> Some e | Inr p \<Rightarrow> validate_loop rest body p)"
  by (simp add: validate_loop.simps [of sig] split_kind_Nil)

lemma sig_types_Nil [simp]: "sig_types [] = Some []"
  by (simp add: sig_types.simps)

lemma sig_types_bad: "sig \<noteq> [] \<Longrightarrow> split_kind sig = (k, None) \<Longrightarrow> sig_types sig = None"
  by (simp add: sig_types.simps)

lemma sig_types_Cons:
  "split_kind sig = (k, Some rest) \<Longrightarrow>
   sig_types sig = (case kind_type k of None \<Rightarrow> None | Some t \<Rightarrow> map_option ((#) t) (sig_types rest))"
  by (simp add: sig_types.simps [of sig] split_kind_Nil)

text \<open>Induction over a signature, one kind at a time.\<close>

lemma sig_induct [case_names Nil bad Cons]:
  assumes "P []"
    and "\<And>sig k. sig \<noteq> [] \<Longrightarrow> split_kind sig = (k, None) \<Longrightarrow> P sig"
    and "\<And>sig k rest. split_kind sig = (k, Some rest) \<Longrightarrow> P rest \<Longrightarrow> P sig"
  shows "P sig"
proof (induction sig rule: length_induct)
  case (1 sig)
  obtain k r where "split_kind sig = (k, r)" by (cases "split_kind sig")
  then show ?case
    using 1 assms split_kind_shorter by (cases "sig = []"; cases r) metis+
qed

lemma validate_loop_iff:
  "pos \<le> length body \<Longrightarrow>
   validate_loop sig body pos = None \<longleftrightarrow>
   (\<exists>ts. sig_types sig = Some ts \<and> body_encoding ts (drop pos body))"
proof (induction sig arbitrary: pos rule: sig_induct)
  case (Cons sig k rest)
  show ?case
  proof (cases "kind_type k")
    case None
    then have "k \<noteq> ''fd''" by (auto simp: kind_type_def)
    then show ?thesis
      using None validate_kind_unknown [OF None, of body pos] Cons.hyps
      by (auto simp: validate_loop_Cons sig_types_Cons)
  next
    case (Some t)
    show ?thesis
    proof (cases "t = TFd")
      case True
      then have "k = ''fd''" using Some by (auto elim: kind_type_cases)
      then show ?thesis using Cons Some True by (auto simp: validate_loop_Cons sig_types_Cons)
    next
      case False
      then have k: "k \<noteq> ''fd''" using Some by (auto simp: kind_type_def)
      have "validate_loop sig body pos = None \<longleftrightarrow>
          (\<exists>p. validate_kind k body pos = Inr p \<and> validate_loop rest body p = None)"
        using Cons.hyps k by (auto simp: validate_loop_Cons split: sum.splits)
      also have "\<dots> \<longleftrightarrow> (\<exists>a b. drop pos body = a @ b \<and> arg_encoding t a \<and>
          validate_loop rest body (pos + length a) = None)"
        unfolding validate_kind_iff [OF Some False Cons.prems] by auto
      also have "\<dots> \<longleftrightarrow> (\<exists>a b ts. drop pos body = a @ b \<and> arg_encoding t a \<and>
          sig_types rest = Some ts \<and> body_encoding ts b)"
      proof -
        have "drop (pos + length a) body = b" if "drop pos body = a @ b" for a b
          using that by (metis add.commute append_eq_conv_conj drop_drop)
        moreover have "pos + length a \<le> length body" if "drop pos body = a @ b" for a b
          using Cons.prems arg_cong [OF that, of length] unfolding length_drop length_append by linarith
        ultimately show ?thesis using Cons.IH by (metis (no_types, lifting))
      qed
      also have "\<dots> \<longleftrightarrow> (\<exists>ts. sig_types sig = Some ts \<and> body_encoding ts (drop pos body))"
        using Cons.hyps Some by (cases "sig_types rest") (simp_all add: sig_types_Cons del: arg_encoding.simps)
      finally show ?thesis .
    qed
  qed
qed (auto simp: validate_loop_bad sig_types_bad)

section \<open>Panics, error classes and descriptor counts\<close>

lemma validate_kind_error:
  "validate_kind k body pos = Inl e \<Longrightarrow> e \<noteq> panic \<and> errors_Is e ErrMalformedFrame"
proof (cases "length body - pos < 4")
  case False
  then have four: "pos + 4 \<le> length body" by linarith
  assume e: "validate_kind k body pos = Inl e"
  show ?thesis
  proof (cases "kind_type k")
    case None
    then show ?thesis using e False
      by (auto simp: validate_kind_def kind_type_def panic_def split: if_splits)
  next
    case (Some t)
    then show ?thesis
      by (cases rule: kind_type_cases)
         (use e False in \<open>auto simp: validate_kind_string [OF four] validate_kind_array [OF four]
           validate_kind_word validate_kind_def [of "''fd''"] word_kind_def panic_def split: if_splits\<close>)
  qed
qed (simp add: validate_kind_short panic_def)

lemma validate_loop_error:
  "validate_loop sig body pos = Some e \<Longrightarrow>
   e \<noteq> panic \<and> (errors_Is e ErrMalformedFrame \<or> (\<exists>t. e = Errorf (''invalid signature '' @ fmt_q t)))"
proof (induction sig arbitrary: pos rule: sig_induct)
  case Nil
  then show ?case by (auto simp: panic_def split: if_splits)
next
  case (bad sig k)
  then show ?case by (auto simp: validate_loop_bad panic_def)
next
  case (Cons sig k rest)
  then show ?case
    using validate_kind_error [of k body pos]
    by (auto simp: validate_loop_Cons split: if_splits sum.splits)
qed

lemma split_kind_append: "split_kind sig = (k, Some rest) \<Longrightarrow> sig = k @ CHR '','' # rest"
  by (induction sig arbitrary: k) (auto split: if_splits prod.splits)

lemma count_fd_kind:
  assumes "kind_type k = Some t"
  shows "count_fd (k @ CHR '','' # rest) = (if t = TFd then Suc (count_fd rest) else count_fd rest)"
  using assms by (cases rule: kind_type_cases) (auto simp: word_kind_def)

lemma count_fd_types: "sig_types sig = Some ts \<Longrightarrow> count_fd sig = count_list ts TFd"
proof (induction sig arbitrary: ts rule: sig_induct)
  case (Cons sig k rest)
  then obtain t us where t: "kind_type k = Some t" "sig_types rest = Some us" "ts = t # us"
    by (auto simp: sig_types_Cons split: option.splits)
  show ?case
    using Cons.IH [OF t(2)] count_fd_kind [OF t(1), of rest] split_kind_append [OF Cons.hyps]
    by (simp add: t(3))
qed (auto simp: sig_types_bad)

section \<open>Properties\<close>

text \<open>Rules that evaluate the validator on concrete bodies.\<close>

lemmas validate_eval = validateEventBody_def validate_loop.simps validate_kind_def word_kind_def
  uint32_at_def index_byte_def Let_def round4_def sig_types.simps kind_type_def

text \<open>
  C8: the validator accepts a body exactly when the signature is well formed and the
  body is the concatenation of one encoding per argument, with nothing left over:
  words of four bytes, strings and arrays with a length, their data and zero to
  three bytes of padding, strings ended by a zero byte.
\<close>

theorem validateEventBody_grammar:
  "validateEventBody sig body = None \<longleftrightarrow> (\<exists>ts. sig_types sig = Some ts \<and> body_encoding ts body)"
  using validate_loop_iff [of 0 body sig] by (simp add: validateEventBody_def)

text \<open>
  C25: on every input the validator returns, never reads out of range, and reports a
  malformed frame or an ill-formed signature.
\<close>

theorem validateEventBody_safe:
  assumes "validateEventBody sig body = Some e"
  shows "e \<noteq> panic \<and> (errors_Is e ErrMalformedFrame \<or> (\<exists>t. e = Errorf (''invalid signature '' @ fmt_q t)))"
  using assms unfolding validateEventBody_def by (rule validate_loop_error)

theorem validateEventBody_safe_witness:
  "ErrMalformedFrame \<noteq> panic \<and>
   (errors_Is ErrMalformedFrame ErrMalformedFrame \<or> (\<exists>t. ErrMalformedFrame = Errorf (''invalid signature '' @ fmt_q t)))"
  by (rule validateEventBody_safe [of "''string,''" "[255, 255, 255, 255]"])
     (simp add: validate_eval)

end
