(* ===== verification/Events.thy ===== *)
theory Events
  imports Marshal Signature Complex_Main
begin

text \<open>
  The received event of \<^verbatim>\<open>core.go\<close>: the accessors that decode its body one value at
  a time (\<^verbatim>\<open>Uint32\<close>, \<^verbatim>\<open>Int32\<close>, \<^verbatim>\<open>Fixed\<close>, \<^verbatim>\<open>String\<close>, \<^verbatim>\<open>Array\<close>, \<^verbatim>\<open>NewID\<close>, \<^verbatim>\<open>Proxy\<close>) and the
  descriptors it owns (\<^verbatim>\<open>OwnedFD\<close>, \<^verbatim>\<open>FD\<close>, \<^verbatim>\<open>Fd\<close>), and the fixed-point type of
  \<^verbatim>\<open>client.go\<close>. Each accessor takes the event and returns the value with the event
  after the read. The lemmas show that a body the validator accepts is decoded
  without ever taking an out-of-range branch and to its last byte, and that the
  accessors invert the encoders of theory Marshal.
\<close>

section \<open>Fixed-point numbers\<close>

text \<open>
  A \<^verbatim>\<open>Fixed\<close> is an \<^verbatim>\<open>int32\<close>, here an \<^typ>\<open>int\<close>. Dividing an \<^verbatim>\<open>int32\<close> by 256 is exact in a
  \<^verbatim>\<open>float64\<close>, and so is the multiplication by 256 of a value in range, so both are
  taken over the reals; a Go conversion to an integer drops the fraction. Outside
  the \<^verbatim>\<open>int32\<close> range Go leaves the conversion to the implementation, which is \<open>None\<close>.
\<close>

definition int32_range :: "int \<Rightarrow> bool" where
  "int32_range i \<longleftrightarrow> - (2 ^ 31) \<le> i \<and> i < 2 ^ 31"

definition Fixed_Float64 :: "int \<Rightarrow> real" where
  "Fixed_Float64 f = real_of_int f / 256"

definition NewFixed :: "real \<Rightarrow> int option" where
  "NewFixed v =
     (let x = v * 256; i = (if 0 \<le> x then \<lfloor>x\<rfloor> else \<lceil>x\<rceil>)
      in if int32_range i then Some i else None)"

section \<open>Descriptors\<close>

text \<open>
  An \<^verbatim>\<open>*OwnedFD\<close> is \<open>None\<close> for the nil pointer or \<open>Some n\<close> for one whose field is
  \<open>n\<close>. \<open>OwnedFD_Close\<close> returns the descriptors it hands to \<^verbatim>\<open>unix.Close\<close>.
\<close>

type_synonym OwnedFD = "fd option"

fun Take :: "OwnedFD \<Rightarrow> fd result \<times> OwnedFD" where
  "Take None = (Inl (Errorf ''missing descriptor''), None)"
| "Take (Some n) =
     (if n < 0 then (Inl (Errorf ''descriptor already taken or closed''), Some n)
      else (Inr n, Some (-1)))"

fun OwnedFD_Close :: "OwnedFD \<Rightarrow> fd list \<times> OwnedFD" where
  "OwnedFD_Close None = ([], None)"
| "OwnedFD_Close (Some n) = (if n < 0 then ([], Some n) else ([n], Some (-1)))"

section \<open>Events\<close>

record event =
  ProxyID :: u32
  Opcode :: u16
  ev_data :: bytes
  ev_offset :: nat
  ev_fds :: "OwnedFD list"
  ev_fdIndex :: nat

text \<open>The accessors of the body and of the read position.\<close>

abbreviation (input) Event_Data :: "event \<Rightarrow> bytes" where
  "Event_Data e \<equiv> ev_data e"

abbreviation (input) Event_Offset :: "event \<Rightarrow> nat" where
  "Event_Offset e \<equiv> ev_offset e"

definition newEvent :: "u32 \<Rightarrow> u16 \<Rightarrow> bytes \<Rightarrow> fd option list \<Rightarrow> event" where
  "newEvent ob oc body fds =
     \<lparr>ProxyID = ob, Opcode = oc, ev_data = body, ev_offset = 0, ev_fds = fds, ev_fdIndex = 0\<rparr>"

definition Event_Uint32 :: "event \<Rightarrow> u32 \<times> event" where
  "Event_Uint32 e =
     (if ev_offset e + 4 > length (ev_data e) then (0, e)
      else (u32le (drop (ev_offset e) (ev_data e)), e\<lparr>ev_offset := ev_offset e + 4\<rparr>))"

definition Event_Int32 :: "event \<Rightarrow> int \<times> event" where
  "Event_Int32 e = (let (v, e') = Event_Uint32 e in (sint v, e'))"

definition Event_Fixed :: "event \<Rightarrow> int \<times> event" where
  "Event_Fixed e = Event_Int32 e"

definition Event_String :: "event \<Rightarrow> string \<times> event" where
  "Event_String e =
     (if ev_offset e + 4 > length (ev_data e) then ([], e)
      else let (strlen, e1) = Event_Uint32 e
           in if strlen = 0 \<or> ev_offset e1 + unat strlen > length (ev_data e1) then ([], e1)
              else let str = bytes_string (take (unat strlen - 1) (drop (ev_offset e1) (ev_data e1)));
                       totalLen = strlen;
                       padding = (4 - totalLen mod 4) mod 4
                   in (str, e1\<lparr>ev_offset := ev_offset e1 + unat (totalLen + padding)\<rparr>))"

text \<open>The nil slice is the empty list; a non-nil result is never empty.\<close>

definition Event_Array :: "event \<Rightarrow> bytes \<times> event" where
  "Event_Array e =
     (if ev_offset e + 4 > length (ev_data e) then ([], e)
      else let (arrlen, e1) = Event_Uint32 e
           in if arrlen = 0 \<or> ev_offset e1 + unat arrlen > length (ev_data e1) then ([], e1)
              else let arr = take (unat arrlen) (drop (ev_offset e1) (ev_data e1));
                       padding = (4 - arrlen mod 4) mod 4
                   in (arr, e1\<lparr>ev_offset := ev_offset e1 + unat (arrlen + padding)\<rparr>))"

text \<open>\<^verbatim>\<open>FD\<close> hands out the next descriptor and leaves nil in its slot.\<close>

definition Event_FD :: "event \<Rightarrow> fd option \<times> event" where
  "Event_FD e =
     (if ev_fdIndex e \<ge> length (ev_fds e) then (None, e)
      else (ev_fds e ! ev_fdIndex e,
            e\<lparr>ev_fds := (ev_fds e)[ev_fdIndex e := None], ev_fdIndex := ev_fdIndex e + 1\<rparr>))"

definition Event_Fd :: "event \<Rightarrow> u64 \<times> event" where
  "Event_Fd e =
     (case Event_FD e of
        (None, e1) \<Rightarrow> (0, snd (Event_Uint32 e1))
      | (Some n, e1) \<Rightarrow>
          (case Take (Some n) of
             (Inl _, _) \<Rightarrow> (word_of_int (-1), e1)
           | (Inr n', _) \<Rightarrow> (word_of_int n', e1)))"

text \<open>\<^verbatim>\<open>NewID\<close> and \<^verbatim>\<open>Proxy\<close> return a fresh \<^verbatim>\<open>BaseProxy\<close> that carries only the ID they read.\<close>

definition Event_NewID :: "event \<Rightarrow> u32 \<times> event" where
  "Event_NewID e = Event_Uint32 e"

definition Event_Proxy :: "event \<Rightarrow> u32 \<times> event" where
  "Event_Proxy e = Event_Uint32 e"

text \<open>
  The end of a dispatch (\<^verbatim>\<open>dispatchFrame\<close>'s deferred loop): every descriptor the
  handler did not take out of the event is closed, in order.
\<close>

definition close_fds :: "fd option list \<Rightarrow> fd list" where
  "close_fds fds = concat (map (\<lambda>f. fst (OwnedFD_Close f)) fds)"

section \<open>Decoding in signature order\<close>

datatype argval = VWord u32 | VString string | VArray bytes | VFd "fd option"

text \<open>One accessor call per argument, as generated bindings make them.\<close>

fun read_arg :: "argtype \<Rightarrow> event \<Rightarrow> argval \<times> event" where
  "read_arg TWord e = (let (v, e') = Event_Uint32 e in (VWord v, e'))"
| "read_arg TString e = (let (v, e') = Event_String e in (VString v, e'))"
| "read_arg TArray e = (let (v, e') = Event_Array e in (VArray v, e'))"
| "read_arg TFd e = (let (v, e') = Event_FD e in (VFd v, e'))"

fun read_args :: "argtype list \<Rightarrow> event \<Rightarrow> argval list \<times> event" where
  "read_args [] e = ([], e)"
| "read_args (t # ts) e =
     (let (v, e1) = read_arg t e; (vs, e2) = read_args ts e1 in (v # vs, e2))"

text \<open>The value an encoding stands for.\<close>

fun arg_value :: "argtype \<Rightarrow> bytes \<Rightarrow> argval" where
  "arg_value TWord bs = VWord (u32le bs)"
| "arg_value TString bs = VString (bytes_string (take (unat (u32le bs) - 1) (drop 4 bs)))"
| "arg_value TArray bs = VArray (take (unat (u32le bs)) (drop 4 bs))"
| "arg_value TFd bs = VFd None"

lemma unat_pad_word: "unat ((4 - (w :: u32) mod 4) mod 4) = pad4 (unat w)"
proof -
  have "unat (w mod 4) < 4" by (simp add: unat_mod)
  then have "w mod 4 \<le> 4" by (simp add: word_le_nat_alt)
  then have "unat (4 - w mod 4) = 4 - unat w mod 4"
    by (simp add: unat_sub unat_mod)
  then show ?thesis by (simp add: unat_mod pad4_def)
qed

lemma Event_Uint32_at:
  assumes "drop (ev_offset e) (ev_data e) = le32 w @ rest"
  shows "Event_Uint32 e = (w, e\<lparr>ev_offset := ev_offset e + 4\<rparr>)"
  using drop_appendD(1) [OF assms] assms by (auto simp: Event_Uint32_def)

lemma unat_add_pad:
  assumes "unat w + pad4 (unat w) < 2 ^ 32"
  shows "unat ((w :: u32) + (4 - w mod 4) mod 4) = unat w + pad4 (unat w)"
  using assms by (simp add: unat_word_ariths(1) unat_pad_word)

text \<open>Each accessor at the encoding of its type reads the value and moves past it.\<close>

lemma Event_String_at:
  assumes d: "drop (ev_offset e) (ev_data e) = (le32 n @ s @ pad) @ rest"
    and l: "length s = unat n" "length pad = pad4 (unat n)" "length (ev_data e) < 2 ^ 32"
  shows "Event_String e =
    (bytes_string (take (unat n - 1) s), e\<lparr>ev_offset := ev_offset e + length (le32 n @ s @ pad)\<rparr>)"
proof -
  have len: "ev_offset e + 4 + length s + length pad + length rest = length (ev_data e)"
    using drop_appendD(1) [OF d] by simp
  have d4: "drop (4 + ev_offset e) (ev_data e) = s @ pad @ rest"
    using drop_appendD(2) [of "ev_offset e" "ev_data e" "le32 n" "s @ pad @ rest"] d by (simp add: add.commute)
  have p: "unat (n + (4 - n mod 4) mod 4) = unat n + pad4 (unat n)"
    by (rule unat_add_pad) (use len l in linarith)
  have "Event_Uint32 e = (n, e\<lparr>ev_offset := ev_offset e + 4\<rparr>)"
    by (rule Event_Uint32_at) (use d in simp)
  moreover have "take (unat n - 1) (s @ pad @ rest) = take (unat n - 1) s" using l by simp
  ultimately show ?thesis
    using len d4 p l by (auto simp: Event_String_def Let_def add.commute add.left_commute bytes_string_def)
qed

lemma Event_Array_at:
  assumes d: "drop (ev_offset e) (ev_data e) = (le32 n @ s @ pad) @ rest"
    and l: "length s = unat n" "length pad = pad4 (unat n)" "length (ev_data e) < 2 ^ 32"
  shows "Event_Array e = (s, e\<lparr>ev_offset := ev_offset e + length (le32 n @ s @ pad)\<rparr>)"
proof -
  have len: "ev_offset e + 4 + length s + length pad + length rest = length (ev_data e)"
    using drop_appendD(1) [OF d] by simp
  have d4: "drop (4 + ev_offset e) (ev_data e) = s @ pad @ rest"
    using drop_appendD(2) [of "ev_offset e" "ev_data e" "le32 n" "s @ pad @ rest"] d by (simp add: add.commute)
  have p: "unat (n + (4 - n mod 4) mod 4) = unat n + pad4 (unat n)"
    by (rule unat_add_pad) (use len l in linarith)
  have "Event_Uint32 e = (n, e\<lparr>ev_offset := ev_offset e + 4\<rparr>)"
    by (rule Event_Uint32_at) (use d in simp)
  then show ?thesis
    using len d4 p l by (auto simp: Event_Array_def Let_def add.commute add.left_commute)
qed

lemma read_arg_at:
  assumes d: "drop (ev_offset e) (ev_data e) = a @ rest" and enc: "arg_encoding t a"
    and "length (ev_data e) < 2 ^ 32"
  shows "ev_offset (snd (read_arg t e)) = ev_offset e + length a"
    and "ev_data (snd (read_arg t e)) = ev_data e"
    and "t \<noteq> TFd \<Longrightarrow> fst (read_arg t e) = arg_value t a"
proof -
  have "ev_offset (snd (read_arg t e)) = ev_offset e + length a \<and>
    ev_data (snd (read_arg t e)) = ev_data e \<and> (t \<noteq> TFd \<longrightarrow> fst (read_arg t e) = arg_value t a)"
  proof (cases t)
    case TWord
    then have "drop (ev_offset e) (ev_data e) = le32 (u32le a) @ rest" using d enc by (simp add: le32_u32le)
    then show ?thesis using TWord enc by (simp add: Event_Uint32_at)
  next
    case TString
    then obtain n s pad where "a = le32 n @ s @ pad" "length s = unat n" "length pad = pad4 (unat n)"
      using enc by auto
    then show ?thesis using TString d assms(3) Event_String_at [of e n s pad rest] by simp
  next
    case TArray
    then obtain n s pad where "a = le32 n @ s @ pad" "length s = unat n" "length pad = pad4 (unat n)"
      using enc by auto
    then show ?thesis using TArray d assms(3) Event_Array_at [of e n s pad rest] by simp
  next
    case TFd
    then show ?thesis using enc by (simp add: Event_FD_def)
  qed
  then show "ev_offset (snd (read_arg t e)) = ev_offset e + length a"
    "ev_data (snd (read_arg t e)) = ev_data e" "t \<noteq> TFd \<Longrightarrow> fst (read_arg t e) = arg_value t a" by auto
qed

text \<open>A whole body: the accessors read every value and end at its last byte.\<close>

lemma read_args_body:
  assumes "body_encoding ts (drop (ev_offset e) (ev_data e))" "ev_offset e \<le> length (ev_data e)"
    and "length (ev_data e) < 2 ^ 32"
  shows "ev_offset (snd (read_args ts e)) = length (ev_data e)"
  using assms
proof (induction ts arbitrary: e)
  case (Cons t ts)
  then obtain a rest where a: "drop (ev_offset e) (ev_data e) = a @ rest" "arg_encoding t a" "body_encoding ts rest"
    by (auto simp del: arg_encoding.simps)
  note r = read_arg_at [OF a(1,2) Cons.prems(3)]
  let ?e = "snd (read_arg t e)"
  have "drop (ev_offset ?e) (ev_data ?e) = rest"
    using a(1) by (simp add: r) (metis add.commute append_eq_conv_conj drop_drop)
  moreover have "ev_offset ?e \<le> length (ev_data ?e)"
    using Cons.prems(2) drop_appendD(1) [OF a(1)] by (cases "a = []") (simp_all add: r)
  ultimately have "ev_offset (snd (read_args ts ?e)) = length (ev_data ?e)"
    using Cons.IH [of ?e] a(3) Cons.prems(3) by (simp add: r)
  then show ?case by (simp add: r case_prod_beta Let_def)
qed simp

section \<open>Reading back what the encoders wrote\<close>

definition goval_type :: "goval \<Rightarrow> argtype" where
  "goval_type g = (case g of GString _ \<Rightarrow> TString | GBytes _ \<Rightarrow> TArray | GUintptr _ \<Rightarrow> TFd | _ \<Rightarrow> TWord)"

definition goval_value :: "(object \<Rightarrow> u32) \<Rightarrow> goval \<Rightarrow> argval" where
  "goval_value idOf g =
     (case g of
        GUint32 v \<Rightarrow> VWord v
      | GInt32 i \<Rightarrow> VWord (word_of_int i)
      | GFixed i \<Rightarrow> VWord (word_of_int i)
      | GString v \<Rightarrow> VString v
      | GBytes v \<Rightarrow> VArray v
      | GObject ob \<Rightarrow> VWord (idOf ob)
      | _ \<Rightarrow> VWord 0)"

lemma goval_wire_encoding:
  assumes "goval_wire idOf g = Some bs"
  shows "arg_encoding (goval_type g) bs"
    and "goval_type g \<noteq> TFd \<Longrightarrow> arg_value (goval_type g) bs = goval_value idOf g"
proof -
  have "arg_encoding (goval_type g) bs \<and>
    (goval_type g \<noteq> TFd \<longrightarrow> arg_value (goval_type g) bs = goval_value idOf g)"
  proof (cases g)
    case (GString v)
    then have le: "length v + 1 \<le> 0xffff"
        and bs: "bs = le32 (word_of_nat (length v + 1)) @ (string_bytes v @ [0]) @ replicate (pad4 (length v + 1)) 0"
      using assms by (auto simp: goval_wire_def string_wire_def HeaderSize_def split: if_splits)
    have u: "unat (word_of_nat (length v + 1) :: u32) = length v + 1" by (rule unat_small [OF le])
    have "arg_encoding TString bs"
      unfolding bs arg_encoding.simps
      by (intro exI conjI) (rule refl, simp_all only: u length_append length_replicate length_string_bytes, simp_all)
    moreover have "arg_value TString bs = VString v"
      unfolding bs arg_value.simps u32le_le32 u by simp
    ultimately show ?thesis by (simp add: GString goval_type_def goval_value_def)
  next
    case (GBytes v)
    then have u: "unat (word_of_nat (length v) :: u32) = length v"
        and bs: "bs = le32 (word_of_nat (length v)) @ v @ replicate (pad4 (length v)) 0"
      using assms by (auto simp: goval_wire_def array_wire_def HeaderSize_def split: if_splits intro!: unat_small)
    have "arg_encoding TArray bs"
      unfolding bs arg_encoding.simps by (intro exI conjI) (rule refl, simp_all only: u length_replicate)
    moreover have "arg_value TArray bs = VArray v"
      unfolding bs arg_value.simps u32le_le32 u by simp
    ultimately show ?thesis by (simp add: GBytes goval_type_def goval_value_def)
  qed (use assms in \<open>auto simp: goval_wire_def goval_type_def goval_value_def\<close>)
  then show "arg_encoding (goval_type g) bs"
    "goval_type g \<noteq> TFd \<Longrightarrow> arg_value (goval_type g) bs = goval_value idOf g" by auto
qed

lemma body_wire_encoding: "body_wire idOf gs = Some bs \<Longrightarrow> body_encoding (map goval_type gs) bs"
proof (induction gs arbitrary: bs)
  case (Cons g gs)
  then obtain a bs' where "goval_wire idOf g = Some a" "body_wire idOf gs = Some bs'" "bs = a @ bs'"
    by (auto split: option.splits)
  then show ?case
    using Cons.IH goval_wire_encoding(1) [of idOf g a] by (simp del: arg_encoding.simps) blast
qed simp

lemma read_args_wire:
  assumes "body_wire idOf gs = Some bs" "drop (ev_offset e) (ev_data e) = bs @ rest"
    and "length (ev_data e) < 2 ^ 32"
  shows "list_all2 (\<lambda>v g. goval_type g \<noteq> TFd \<longrightarrow> v = goval_value idOf g)
    (fst (read_args (map goval_type gs) e)) gs"
  using assms
proof (induction gs arbitrary: bs e)
  case (Cons g gs)
  then obtain a bs' where w: "goval_wire idOf g = Some a" "body_wire idOf gs = Some bs'" "bs = a @ bs'"
    by (auto split: option.splits)
  have d: "drop (ev_offset e) (ev_data e) = a @ (bs' @ rest)" using Cons.prems(2) w(3) by simp
  note r = read_arg_at [OF d goval_wire_encoding(1) [OF w(1)] Cons.prems(3)]
  let ?e = "snd (read_arg (goval_type g) e)"
  have "drop (ev_offset ?e) (ev_data ?e) = bs' @ rest"
    using d by (simp add: r) (metis add.commute append_eq_conv_conj drop_drop)
  then have "list_all2 (\<lambda>v g. goval_type g \<noteq> TFd \<longrightarrow> v = goval_value idOf g)
      (fst (read_args (map goval_type gs) ?e)) gs"
    using Cons.IH [OF w(2), of ?e] Cons.prems(3) by (simp add: r)
  then show ?case
    using r(3) goval_wire_encoding(2) [OF w(1)] by (simp add: case_prod_beta Let_def)
qed simp

text \<open>Descriptors come out in the order in which they were assigned.\<close>

fun fd_values :: "argval list \<Rightarrow> fd option list" where
  "fd_values [] = []"
| "fd_values (VFd f # vs) = f # fd_values vs"
| "fd_values (_ # vs) = fd_values vs"

lemma read_arg_fd_frame:
  "t \<noteq> TFd \<Longrightarrow> ev_fds (snd (read_arg t e)) = ev_fds e \<and> ev_fdIndex (snd (read_arg t e)) = ev_fdIndex e \<and>
     fd_values (fst (read_arg t e) # vs) = fd_values vs"
  by (cases t) (auto simp: Event_Uint32_def Event_String_def Event_Array_def Let_def)

lemma read_args_fds:
  "ev_fdIndex e + count_list ts TFd \<le> length (ev_fds e) \<Longrightarrow>
   fd_values (fst (read_args ts e)) = take (count_list ts TFd) (drop (ev_fdIndex e) (ev_fds e))"
proof (induction ts arbitrary: e)
  case (Cons t ts)
  show ?case
  proof (cases "t = TFd")
    case True
    let ?e = "snd (Event_FD e)"
    have lt: "ev_fdIndex e < length (ev_fds e)" using Cons.prems True by simp
    then have "fd_values (fst (read_args ts ?e)) =
        take (count_list ts TFd) (drop (Suc (ev_fdIndex e)) (ev_fds e))"
      using Cons.IH [of ?e] Cons.prems True by (simp add: Event_FD_def)
    then show ?thesis
      using True lt by (simp add: case_prod_beta Let_def Event_FD_def Cons_nth_drop_Suc [symmetric])
  next
    case False
    note f = read_arg_fd_frame [OF False, of e]
    then show ?thesis
      using Cons.IH [of "snd (read_arg t e)"] Cons.prems False by (simp add: case_prod_beta Let_def)
  qed
qed simp

section \<open>Properties\<close>

text \<open>
  C15: the accessors, called in signature order on a body the validator accepts, end
  exactly at the last byte of the body, and every descriptor argument yields one
  descriptor of the event, in the order in which they were assigned.
\<close>

theorem accepted_body_fully_decoded:
  assumes "validateEventBody sig body = None" "sig_types sig = Some ts" "length body < 2 ^ 32"
    and "length fds = count_fd sig"
  shows "ev_offset (snd (read_args ts (newEvent ob oc body fds))) = length body \<and>
    fd_values (fst (read_args ts (newEvent ob oc body fds))) = fds"
proof -
  have "body_encoding ts body"
    using assms(1,2) validate_loop_iff [of 0 body sig] by (simp add: validateEventBody_def)
  then show ?thesis
    using read_args_body [of ts "newEvent ob oc body fds"] read_args_fds [of "newEvent ob oc body fds" ts]
      assms(3,4) count_fd_types [OF assms(2)] by (simp add: newEvent_def)
qed

theorem accepted_body_fully_decoded_witness:
  "ev_offset (snd (read_args [TWord, TString, TFd] (newEvent 3 0 [1, 0, 0, 0, 3, 0, 0, 0, 97, 98, 0, 0] [Some 9]))) =
     length [1, 0, 0, 0, 3, 0, 0, 0, 97, 98, 0, 0 :: byte] \<and>
   fd_values (fst (read_args [TWord, TString, TFd] (newEvent 3 0 [1, 0, 0, 0, 3, 0, 0, 0, 97, 98, 0, 0] [Some 9]))) =
     [Some 9]"
  by (rule accepted_body_fully_decoded [where sig = "''uint,string,fd,''"])
     (simp_all add: validate_eval)

text \<open>
  Encoding and decoding are inverse. An event that carries the wire forms of a
  list of arguments is read back, accessor by accessor, as these arguments; a
  descriptor argument occupies no bytes.
\<close>

lemma encode_decode_roundtrip:
  assumes "body_wire idOf gs = Some body" "length body < 2 ^ 32"
  shows "list_all2 (\<lambda>v g. goval_type g \<noteq> TFd \<longrightarrow> v = goval_value idOf g)
      (fst (read_args (map goval_type gs) (newEvent ob oc body fds))) gs \<and>
    ev_offset (snd (read_args (map goval_type gs) (newEvent ob oc body fds))) = length body"
  using read_args_wire [OF assms(1), of "newEvent ob oc body fds" "[]"] assms(2)
    read_args_body [of "map goval_type gs" "newEvent ob oc body fds"] body_wire_encoding [OF assms(1)]
  by (simp add: newEvent_def)

text \<open>Converting a fixed-point number to a float and back is the identity on the \<^verbatim>\<open>int32\<close> range.\<close>

lemma fixed_roundtrip: "int32_range f \<Longrightarrow> NewFixed (Fixed_Float64 f) = Some f"
  by (simp add: NewFixed_def Fixed_Float64_def Let_def)

end
