(* ===== verification/ObjectTable.thy ===== *)
theory ObjectTable
  imports Prelude
begin

text \<open>
  The object table of \<^verbatim>\<open>objects.go\<close>: a lazily made Go map behind a lock. Every method
  runs under the lock, so each is one atomic step of the model. The locale
  \<open>object_table\<close> is the contract the rest of the library relies on: how each
  operation changes what \<open>Load\<close> returns. Its lemmas, proved once from the laws,
  are the compare-and-delete facts the object lifecycle rests on.
\<close>

section \<open>The table\<close>

text \<open>The field is \<open>None\<close> for the nil map; reading or deleting in a nil map is legal Go.\<close>

record 'v objectTable =
  m :: "(u32 \<rightharpoonup> 'v) option"

definition emptyTable :: "'v objectTable" where
  "emptyTable = \<lparr>m = None\<rparr>"

definition Load :: "'v objectTable \<Rightarrow> u32 \<Rightarrow> 'v option" where
  "Load t ident = (case m t of None \<Rightarrow> None | Some mp \<Rightarrow> mp ident)"

definition Store :: "'v objectTable \<Rightarrow> u32 \<Rightarrow> 'v \<Rightarrow> 'v objectTable" where
  "Store t ident v =
     (let mp = (case m t of None \<Rightarrow> Map.empty | Some mp \<Rightarrow> mp)
      in t\<lparr>m := Some (mp(ident \<mapsto> v))\<rparr>)"

definition Delete :: "'v objectTable \<Rightarrow> u32 \<Rightarrow> 'v objectTable" where
  "Delete t ident = t\<lparr>m := map_option (\<lambda>mp. mp(ident := None)) (m t)\<rparr>"

definition CompareAndDelete :: "'v objectTable \<Rightarrow> u32 \<Rightarrow> 'v \<Rightarrow> bool \<times> 'v objectTable" where
  "CompareAndDelete t ident old =
     (if Load t ident \<noteq> Some old then (False, t) else (True, Delete t ident))"

definition CompareAndSwap :: "'v objectTable \<Rightarrow> u32 \<Rightarrow> 'v \<Rightarrow> 'v \<Rightarrow> bool \<times> 'v objectTable" where
  "CompareAndSwap t ident old new =
     (if Load t ident \<noteq> Some old then (False, t) else (True, Store t ident new))"

section \<open>The contract\<close>

locale object_table =
  fixes empty :: "'t"
    and load :: "'t \<Rightarrow> u32 \<Rightarrow> 'v option"
    and store :: "'t \<Rightarrow> u32 \<Rightarrow> 'v \<Rightarrow> 't"
    and del :: "'t \<Rightarrow> u32 \<Rightarrow> 't"
    and cad :: "'t \<Rightarrow> u32 \<Rightarrow> 'v \<Rightarrow> bool \<times> 't"
    and cas :: "'t \<Rightarrow> u32 \<Rightarrow> 'v \<Rightarrow> 'v \<Rightarrow> bool \<times> 't"
  assumes load_empty: "load empty i = None"
    and load_store: "load (store t i v) j = (if j = i then Some v else load t j)"
    and load_del: "load (del t i) j = (if j = i then None else load t j)"
    and cad_hit: "fst (cad t i v) \<longleftrightarrow> load t i = Some v"
    and load_cad: "load (snd (cad t i v)) j = (if j = i \<and> load t i = Some v then None else load t j)"
    and cas_hit: "fst (cas t i v w) \<longleftrightarrow> load t i = Some v"
    and load_cas: "load (snd (cas t i v w)) j = (if j = i \<and> load t i = Some v then Some w else load t j)"
begin

lemma cad_claims_once: "fst (cad t i v) \<Longrightarrow> \<not> fst (cad (snd (cad t i v)) i v)"
  by (simp add: cad_hit load_cad)

lemma cad_keeps_other: "load t i = Some w \<Longrightarrow> w \<noteq> v \<Longrightarrow> load (snd (cad t i v)) j = load t j"
  by (simp add: load_cad)

lemma cas_then_cad: "w \<noteq> v \<Longrightarrow> load t i = Some v \<Longrightarrow> load (snd (cad (snd (cas t i v w)) i v)) i = Some w"
  by (simp add: load_cas load_cad)

lemma dom_cad: "dom (load (snd (cad t i v))) \<subseteq> dom (load t)"
  by (auto simp: load_cad split: if_splits)

lemma dom_cas: "dom (load (snd (cas t i v w))) = dom (load t)"
  by (auto simp: load_cas split: if_splits)

lemma dom_store: "dom (load (store t i v)) = insert i (dom (load t))"
  by (auto simp: load_store split: if_splits)

lemma dom_del: "dom (load (del t i)) = dom (load t) - {i}"
  by (auto simp: load_del split: if_splits)

lemmas table_laws = load_empty load_store load_del cad_hit load_cad cas_hit load_cas

end

interpretation tbl: object_table emptyTable Load Store Delete CompareAndDelete CompareAndSwap
  by unfold_locales
     (auto simp: emptyTable_def Load_def Store_def Delete_def CompareAndDelete_def CompareAndSwap_def
        Let_def split: option.splits if_splits)

declare tbl.table_laws [simp]

end
