(* ===== verification/Display.thy ===== *)
theory Display
  imports Events ObjectTable
begin

text \<open>
  The state of one connection and the operations that keep it: \<^verbatim>\<open>Display\<close>,
  \<^verbatim>\<open>Context\<close> and \<^verbatim>\<open>Registry\<close> of \<^verbatim>\<open>client.go\<close> and \<^verbatim>\<open>core.go\<close>, object IDs
  (\<^verbatim>\<open>allocateID\<close> and the \<^verbatim>\<open>delete_id\<close> event), the two object tables
  (\<^verbatim>\<open>Register\<close>, \<^verbatim>\<open>Unregister\<close>, \<^verbatim>\<open>CheckProxy\<close>, \<^verbatim>\<open>claimDestroy\<close>, \<^verbatim>\<open>Abandon\<close>) and \<^verbatim>\<open>Close\<close>.

  A Go pointer to a proxy is an address of the heap \<open>d_heap\<close>; two interface values
  are equal when their addresses are. The fields \<open>d_recvFDs\<close>, \<open>d_closedFDs\<close>,
  \<open>d_takenFDs\<close>, \<open>d_sentClosed\<close> and \<open>d_trace\<close> are history: the descriptors the kernel delivered, the
  received descriptors that were closed, those a handler took over, the sent
  descriptors closed after a send, and the events handed to objects.
\<close>

section \<open>The socket\<close>

text \<open>
  \<^verbatim>\<open>net.Conn\<close>: the outcomes of the reads and writes to come are part of the state.
  A read beyond \<open>cn_in\<close> blocks. A write beyond \<open>cn_wres\<close> is accepted whole. After
  \<^verbatim>\<open>Close\<close> every call returns \<^verbatim>\<open>net.ErrClosed\<close>.
\<close>

record readResult =
  rd_data :: bytes
  rd_oob :: bytes
  rd_ctrunc :: bool
  rd_err :: "error option"

record netConn =
  cn_closed :: bool
  cn_in :: "readResult list"
  cn_wres :: "(nat \<times> error option) list"
  cn_out :: "(bytes \<times> fd list) list"
  cn_closeErr :: "error option"

definition conn_Close :: "netConn \<Rightarrow> error option \<times> netConn" where
  "conn_Close c = (if cn_closed c then (Some NetErrClosed, c) else (cn_closeErr c, c\<lparr>cn_closed := True\<rparr>))"

definition conn_Write :: "netConn \<Rightarrow> bytes \<Rightarrow> fd list \<Rightarrow> (nat \<times> error option) \<times> netConn" where
  "conn_Write c buf fds =
     (if cn_closed c then ((0, Some NetErrClosed), c)
      else case cn_wres c of
             [] \<Rightarrow> ((length buf, None), c\<lparr>cn_out := cn_out c @ [(buf, fds)]\<rparr>)
           | (n, err) # rs \<Rightarrow>
               ((min n (length buf), err),
                c\<lparr>cn_wres := rs, cn_out := cn_out c @ [(take n buf, fds)]\<rparr>))"

section \<open>Proxies, globals and handlers\<close>

text \<open>
  A proxy with the fields of \<^verbatim>\<open>BaseProxy\<close>. Its dynamic type decides which optional
  methods it has: \<open>BaseClass\<close> and \<open>CallbackClass\<close> are the types of the source,
  \<open>UserClass k\<close> is a type of the bindings or the application.
\<close>

datatype pclass = BaseClass | CallbackClass | UserClass nat

record proxy =
  p_id :: u32
  p_context :: "nat option"
  p_version :: u32
  p_class :: pclass
  p_hasVersion :: bool
  p_hasSetVersion :: bool
  p_hasSetContext :: bool
  p_sig :: "(u16 \<Rightarrow> string option) option"

definition BaseProxy :: "u32 \<Rightarrow> nat option \<Rightarrow> u32 \<Rightarrow> proxy" where
  "BaseProxy ident ctx v =
     \<lparr>p_id = ident, p_context = ctx, p_version = v, p_class = BaseClass, p_hasVersion = True,
      p_hasSetVersion = True, p_hasSetContext = True, p_sig = None\<rparr>"

definition callback_EventSignature :: "u16 \<Rightarrow> string option" where
  "callback_EventSignature op = (if op = 0 then Some ''uint,'' else None)"

definition callbackObject :: "u32 \<Rightarrow> nat option \<Rightarrow> proxy" where
  "callbackObject ident ctx =
     (BaseProxy ident ctx 0)\<lparr>p_class := CallbackClass, p_sig := Some callback_EventSignature\<rparr>"

record Global =
  g_name :: u32
  g_interface :: string
  g_version :: u32

text \<open>
  A registered \<^verbatim>\<open>GlobalHandler\<close>: the application's own, or the closure that
  \<^verbatim>\<open>AddGlobalHandler\<close> builds around an application handler.
\<close>

datatype globalHandler = UserHandler nat | WrappedHandler nat

section \<open>The connection\<close>

record ctx =
  cx_ref :: nat
  cx_proxies :: "addr objectTable"
  cx_closed :: bool

text \<open>\<^verbatim>\<open>NewContext\<close>; \<open>ref\<close> is the address of the new context.\<close>

definition NewContext :: "nat \<Rightarrow> ctx" where
  "NewContext ref = \<lparr>cx_ref = ref, cx_proxies = emptyTable, cx_closed = False\<rparr>"

record registry =
  r_id :: u32
  r_globals :: "u32 \<rightharpoonup> Global"
  r_handlers :: "string \<Rightarrow> globalHandler list"
  r_removeHandlers :: "nat list"

text \<open>
  The arguments of the two handler interfaces. Their field \<^verbatim>\<open>Registry\<close> always points to
  the registry of this display and is left out.
\<close>

record RegistryGlobalEvent =
  ge_name :: u32
  ge_interface :: string
  ge_version :: u32

record RegistryGlobalRemoveEvent =
  gr_name :: u32

datatype delivery =
    ToProxy addr event
  | ToGlobal nat u32 u32
  | ToWrapped nat RegistryGlobalEvent
  | ToRemove nat RegistryGlobalRemoveEvent

type_synonym signatureKey = "u32 \<times> u16"

record display =
  d_conn :: netConn
  d_unix :: bool
  d_objects :: "object objectTable"
  d_nextID :: u32
  d_freeIDs :: "u32 list"
  d_retiredIDs :: "u32 set"
  d_signatures :: "signatureKey \<rightharpoonup> string"
  d_registry :: registry
  d_context :: ctx
  d_rbuf :: bytes
  d_rpos :: nat
  d_readErr :: "error option"
  d_maxMsgLen :: u32
  d_closed :: bool
  d_pendingFDs :: "fd list"
  d_heap :: "addr \<Rightarrow> proxy"
  d_brk :: addr
  d_recvFDs :: "fd list"
  d_closedFDs :: "fd list"
  d_takenFDs :: "fd list"
  d_sentClosed :: "fd list"
  d_trace :: "delivery list"

text \<open>The accessors of the display, the registry and a proxy.\<close>

abbreviation (input) Closed :: "display \<Rightarrow> bool" where
  "Closed d \<equiv> d_closed d"

abbreviation (input) Display_ID :: u32 where
  "Display_ID \<equiv> 1"

abbreviation (input) Display_Registry :: "display \<Rightarrow> registry" where
  "Display_Registry d \<equiv> d_registry d"

abbreviation (input) GetRegistry :: "display \<Rightarrow> registry" where
  "GetRegistry d \<equiv> d_registry d"

abbreviation (input) Display_Context :: "display \<Rightarrow> ctx" where
  "Display_Context d \<equiv> d_context d"

abbreviation (input) Registry_ID :: "display \<Rightarrow> u32" where
  "Registry_ID d \<equiv> r_id (Display_Registry d)"

abbreviation pid :: "display \<Rightarrow> addr \<Rightarrow> u32" where
  "pid d a \<equiv> p_id (d_heap d a)"

abbreviation (input) proxyContext :: "display \<Rightarrow> addr \<Rightarrow> nat option" where
  "proxyContext d a \<equiv> p_context (d_heap d a)"

abbreviation (input) proxyVersion :: "display \<Rightarrow> addr \<Rightarrow> u32" where
  "proxyVersion d a \<equiv> p_version (d_heap d a)"

text \<open>The method \<^verbatim>\<open>ID()\<close> by the dynamic type of the object; a zombie has the ID of the object it replaces.\<close>

fun objID :: "display \<Rightarrow> object \<Rightarrow> u32" where
  "objID d DisplayObj = Display_ID"
| "objID d RegistryObj = Registry_ID d"
| "objID d (ProxyObj a) = pid d a"
| "objID d (ZombieObj a) = pid d a"

abbreviation objectAt :: "display \<Rightarrow> u32 \<Rightarrow> object option" where
  "objectAt d i \<equiv> Load (d_objects d) i"

abbreviation proxyAt :: "display \<Rightarrow> u32 \<Rightarrow> addr option" where
  "proxyAt d i \<equiv> Load (cx_proxies (d_context d)) i"

section \<open>Object IDs\<close>

definition allocateID :: "display \<Rightarrow> u32 \<times> display" where
  "allocateID d =
     (if d_freeIDs d \<noteq> [] then
        let ident = last (d_freeIDs d)
        in (ident, d\<lparr>d_freeIDs := butlast (d_freeIDs d), d_retiredIDs := d_retiredIDs d - {ident}\<rparr>)
      else if d_nextID d = 0 \<or> d_nextID d \<ge> 0xff000000 then (0, d)
      else (d_nextID d, d\<lparr>d_nextID := d_nextID d + 1\<rparr>))"

text \<open>The public names of the allocator.\<close>

abbreviation (input) Display_AllocateID :: "display \<Rightarrow> u32 \<times> display" where
  "Display_AllocateID d \<equiv> allocateID d"

abbreviation (input) Context_AllocateID :: "display \<Rightarrow> u32 \<times> display" where
  "Context_AllocateID d \<equiv> Display_AllocateID d"

text \<open>
  The \<^verbatim>\<open>delete_id\<close> branch of \<^verbatim>\<open>handleDisplayEvent\<close>: a zombie is dropped first; the ID
  must then be one this client handed out, not live and not free already.
\<close>

definition delete_id :: "display \<Rightarrow> u32 \<Rightarrow> error option \<times> display" where
  "delete_id d ident =
     (let obj = objectAt d ident;
          isZombie = (case obj of Some (ZombieObj _) \<Rightarrow> True | _ \<Rightarrow> False);
          d1 = (if isZombie then d\<lparr>d_objects := snd (CompareAndDelete (d_objects d) ident (the obj))\<rparr> else d);
          live = (obj \<noteq> None \<and> \<not> isZombie)
      in if ident < 2 \<or> ident \<ge> 0xff000000 \<or> ident \<ge> d_nextID d1 \<or> live \<or> ident \<in> d_retiredIDs d1
         then (Some (ProtocolError ''invalid_delete_id'' ident 0 0 ErrMalformedFrame), d1)
         else (None, d1\<lparr>d_retiredIDs := insert ident (d_retiredIDs d1), d_freeIDs := d_freeIDs d1 @ [ident]\<rparr>))"

section \<open>Construction\<close>

definition newDisplay :: "netConn \<Rightarrow> bool \<Rightarrow> nat \<Rightarrow> (addr \<Rightarrow> proxy) \<Rightarrow> addr \<Rightarrow> display" where
  "newDisplay c isUnix ref heap brk =
     (let d0 = \<lparr>d_conn = c, d_unix = isUnix, d_objects = emptyTable, d_nextID = 2, d_freeIDs = [],
            d_retiredIDs = {}, d_signatures = Map.empty,
            d_registry = \<lparr>r_id = 0, r_globals = Map.empty, r_handlers = (\<lambda>_. []), r_removeHandlers = []\<rparr>,
            d_context = NewContext ref,
            d_rbuf = [], d_rpos = 0, d_readErr = None, d_maxMsgLen = 0, d_closed = False,
            d_pendingFDs = [], d_heap = heap, d_brk = brk, d_recvFDs = [], d_closedFDs = [],
            d_takenFDs = [], d_sentClosed = [], d_trace = []\<rparr>;
          d1 = d0\<lparr>d_objects := Store (d_objects d0) displayObjectID DisplayObj\<rparr>;
          (rid, d2) = allocateID d1;
          d3 = d2\<lparr>d_registry := (d_registry d2)\<lparr>r_id := rid\<rparr>\<rparr>
      in d3\<lparr>d_objects := Store (d_objects d3) rid RegistryObj\<rparr>)"

section \<open>Closing\<close>

definition closePendingFDs :: "display \<Rightarrow> display" where
  "closePendingFDs d =
     d\<lparr>d_pendingFDs := [], d_closedFDs := d_closedFDs d @ filter (\<lambda>n. n \<ge> 0) (d_pendingFDs d)\<rparr>"

definition Close :: "display \<Rightarrow> error option \<times> display" where
  "Close d =
     (if d_closed d then (None, d)
      else let d1 = d\<lparr>d_closed := True, d_context := (d_context d)\<lparr>cx_closed := True\<rparr>\<rparr>;
               (err, c) = conn_Close (d_conn d1)
           in (err, closePendingFDs (d1\<lparr>d_conn := c\<rparr>)))"

definition Context_Close :: "display \<Rightarrow> error option \<times> display" where
  "Context_Close d = Close (d\<lparr>d_context := (d_context d)\<lparr>cx_closed := True\<rparr>\<rparr>)"

section \<open>Registration and the object lifecycle\<close>

definition CheckProxy :: "display \<Rightarrow> addr option \<Rightarrow> error option" where
  "CheckProxy d p =
     (if cx_closed (d_context d) then Some (Errorf ''context is closed'')
      else case p of
             None \<Rightarrow> Some (Errorf ''invalid proxy'')
           | Some a \<Rightarrow>
               if pid d a = 0 \<or> proxyContext d a \<noteq> Some (cx_ref (d_context d))
               then Some (Errorf ''invalid proxy'')
               else if proxyAt d (pid d a) \<noteq> Some a then Some (Errorf ''proxy is not registered'')
               else None)"

definition Register :: "display \<Rightarrow> addr option \<Rightarrow> display" where
  "Register d p =
     (case p of
        None \<Rightarrow> d
      | Some a \<Rightarrow>
          if pid d a \<noteq> 0 \<and> \<not> cx_closed (d_context d) then
            if proxyContext d a \<noteq> Some (cx_ref (d_context d)) then d
            else d\<lparr>d_context := (d_context d)\<lparr>cx_proxies := Store (cx_proxies (d_context d)) (pid d a) a\<rparr>,
                   d_objects := Store (d_objects d) (pid d a) (ProxyObj a)\<rparr>
          else d)"

definition Unregister :: "display \<Rightarrow> addr option \<Rightarrow> display" where
  "Unregister d p =
     (case p of
        None \<Rightarrow> d
      | Some a \<Rightarrow>
          d\<lparr>d_context := (d_context d)\<lparr>cx_proxies := snd (CompareAndDelete (cx_proxies (d_context d)) (pid d a) a)\<rparr>,
            d_objects := snd (CompareAndDelete (d_objects d) (pid d a) (ProxyObj a))\<rparr>)"

definition UnregisterID :: "display \<Rightarrow> u32 \<Rightarrow> display" where
  "UnregisterID d ident =
     d\<lparr>d_context := (d_context d)\<lparr>cx_proxies := Delete (cx_proxies (d_context d)) ident\<rparr>,
       d_objects := Delete (d_objects d) ident\<rparr>"

definition claimDestroy :: "display \<Rightarrow> addr option \<Rightarrow> error option \<times> display" where
  "claimDestroy d p =
     (case CheckProxy d p of
        Some err \<Rightarrow> (Some err, d)
      | None \<Rightarrow>
          let a = the p;
              (ok, t) = CompareAndDelete (cx_proxies (d_context d)) (pid d a) a;
              d1 = d\<lparr>d_context := (d_context d)\<lparr>cx_proxies := t\<rparr>\<rparr>
          in if \<not> ok then (Some (Errorf ''proxy is not registered''), d1)
             else (None, d1\<lparr>d_objects :=
                     snd (CompareAndSwap (d_objects d1) (pid d a) (ProxyObj a) (ZombieObj a))\<rparr>))"

definition Abandon :: "display \<Rightarrow> addr option \<Rightarrow> error option \<times> display" where
  "Abandon d p = claimDestroy d p"

definition CheckVersion :: "u32 \<Rightarrow> u32 \<Rightarrow> string \<Rightarrow> error option" where
  "CheckVersion version since request =
     (if version \<noteq> 0 \<and> version < since then Some (Wrap [] ErrVersionTooLow
        ('': '' @ request @ '' needs version '' @ digits (unat since) @ '', object has '' @ digits (unat version))) else None)"

text \<open>Field updates through a proxy pointer (\<^verbatim>\<open>SetID\<close>, \<^verbatim>\<open>SetContext\<close>, \<^verbatim>\<open>SetVersion\<close>).\<close>

definition SetID :: "display \<Rightarrow> addr \<Rightarrow> u32 \<Rightarrow> display" where
  "SetID d a ident = d\<lparr>d_heap := (d_heap d)(a := (d_heap d a)\<lparr>p_id := ident\<rparr>)\<rparr>"

definition SetContext :: "display \<Rightarrow> addr \<Rightarrow> nat option \<Rightarrow> display" where
  "SetContext d a ctx = d\<lparr>d_heap := (d_heap d)(a := (d_heap d a)\<lparr>p_context := ctx\<rparr>)\<rparr>"

definition SetVersion :: "display \<Rightarrow> addr \<Rightarrow> u32 \<Rightarrow> display" where
  "SetVersion d a v = d\<lparr>d_heap := (d_heap d)(a := (d_heap d a)\<lparr>p_version := v\<rparr>)\<rparr>"

definition RegisterEventSignature :: "display \<Rightarrow> u32 \<Rightarrow> u16 \<Rightarrow> string \<Rightarrow> display" where
  "RegisterEventSignature d object opcode signature =
     (if object = 0 \<or> object = displayObjectID then d
      else d\<lparr>d_signatures := (d_signatures d)((object, opcode) \<mapsto> signature)\<rparr>)"

lemmas display_op_defs [op_defs] = allocateID_def delete_id_def closePendingFDs_def Close_def
  Context_Close_def Register_def Unregister_def UnregisterID_def claimDestroy_def Abandon_def
  SetID_def SetContext_def SetVersion_def RegisterEventSignature_def

section \<open>Frame conditions\<close>

text \<open>The parts of the state the invariants speak about.\<close>

definition id_state :: "display \<Rightarrow> u32 \<times> u32 list \<times> u32 set" where
  "id_state d = (d_nextID d, d_freeIDs d, d_retiredIDs d)"

definition fd_state :: "display \<Rightarrow> fd list \<times> fd list \<times> fd list \<times> fd list" where
  "fd_state d = (d_pendingFDs d, d_recvFDs d, d_closedFDs d, d_takenFDs d)"

definition tab_state :: "display \<Rightarrow> object objectTable \<times> addr objectTable" where
  "tab_state d = (d_objects d, cx_proxies (d_context d))"

lemmas state_defs = id_state_def fd_state_def tab_state_def

lemma id_frame [frame_simps]:
  "id_state (closePendingFDs d) = id_state d"
  "id_state (snd (Close d)) = id_state d"
  "id_state (snd (Context_Close d)) = id_state d"
  "id_state (Register d p) = id_state d"
  "id_state (Unregister d p) = id_state d"
  "id_state (UnregisterID d i) = id_state d"
  "id_state (snd (claimDestroy d p)) = id_state d"
  "id_state (snd (Abandon d p)) = id_state d"
  "id_state (SetID d a i) = id_state d"
  "id_state (SetContext d a c) = id_state d"
  "id_state (SetVersion d a v) = id_state d"
  "id_state (RegisterEventSignature d i oc t) = id_state d"
  by (simp_all add: op_defs id_state_def Let_def split: option.splits prod.splits)

lemma fd_frame [frame_simps]:
  "fd_state (snd (allocateID d)) = fd_state d"
  "fd_state (snd (delete_id d i)) = fd_state d"
  "fd_state (Register d p) = fd_state d"
  "fd_state (Unregister d p) = fd_state d"
  "fd_state (UnregisterID d i) = fd_state d"
  "fd_state (snd (claimDestroy d p)) = fd_state d"
  "fd_state (snd (Abandon d p)) = fd_state d"
  "fd_state (SetID d a i) = fd_state d"
  "fd_state (SetContext d a c) = fd_state d"
  "fd_state (SetVersion d a v) = fd_state d"
  "fd_state (RegisterEventSignature d i oc t) = fd_state d"
  by (simp_all add: op_defs fd_state_def Let_def split: option.splits prod.splits)

lemma tab_frame [frame_simps]:
  "tab_state (snd (allocateID d)) = tab_state d"
  "tab_state (closePendingFDs d) = tab_state d"
  "tab_state (snd (Close d)) = tab_state d"
  "tab_state (snd (Context_Close d)) = tab_state d"
  "tab_state (SetID d a i) = tab_state d"
  "tab_state (SetContext d a c) = tab_state d"
  "tab_state (SetVersion d a v) = tab_state d"
  "tab_state (RegisterEventSignature d i oc t) = tab_state d"
  by (simp_all add: op_defs tab_state_def Let_def split: option.splits prod.splits)

section \<open>The ID allocator\<close>

text \<open>
  The contract of an ID allocator, in terms of the set of IDs that are handed out:
  an allocation yields 0 (exhausted) or an ID that is not handed out, a release
  succeeds only for an ID that is.
\<close>

datatype id_op = Alloc | Release u32

locale id_allocator =
  fixes inv :: "'s \<Rightarrow> bool"
    and alloc :: "'s \<Rightarrow> u32 \<times> 's"
    and release :: "'s \<Rightarrow> u32 \<Rightarrow> error option \<times> 's"
    and used :: "'s \<Rightarrow> u32 set"
  assumes inv_alloc: "inv s \<Longrightarrow> inv (snd (alloc s))"
    and inv_release: "inv s \<Longrightarrow> inv (snd (release s i))"
    and alloc_fresh: "inv s \<Longrightarrow> fst (alloc s) \<noteq> 0 \<Longrightarrow> fst (alloc s) \<notin> used s"
    and used_alloc: "inv s \<Longrightarrow> used (snd (alloc s)) = (if fst (alloc s) = 0 then used s else insert (fst (alloc s)) (used s))"
    and used_release: "inv s \<Longrightarrow> used (snd (release s i)) = (if fst (release s i) = None then used s - {i} else used s)"
    and release_used: "inv s \<Longrightarrow> fst (release s i) = None \<Longrightarrow> i \<in> used s"
    and used_nonzero: "inv s \<Longrightarrow> 0 \<notin> used s"
begin

text \<open>A run of allocations and releases, with the IDs the allocations returned.\<close>

fun id_run :: "id_op list \<Rightarrow> 's \<Rightarrow> u32 list \<times> 's" where
  "id_run [] s = ([], s)"
| "id_run (Alloc # ops) s =
     (fst (alloc s) # fst (id_run ops (snd (alloc s))), snd (id_run ops (snd (alloc s))))"
| "id_run (Release j # ops) s = id_run ops (snd (release s j))"

lemma id_run_inv: "inv s \<Longrightarrow> inv (snd (id_run ops s))"
  by (induction ops s rule: id_run.induct)
     (auto intro: inv_alloc inv_release)

text \<open>An ID in use is not handed out again before it is released.\<close>

lemma no_reuse_before_release:
  assumes "inv s" "i \<in> used s" "Release i \<notin> set ops"
  shows "i \<notin> set (fst (id_run ops s)) \<and> i \<in> used (snd (id_run ops s))"
  using assms
proof (induction ops s rule: id_run.induct)
  case (2 ops s)
  have "i \<noteq> fst (alloc s)"
    using "2.prems" alloc_fresh [of s] used_nonzero [of s] by (metis)
  moreover have "i \<in> used (snd (alloc s))" using "2.prems" by (simp add: used_alloc)
  ultimately show ?case using "2.IH" "2.prems" inv_alloc [of s] by simp
next
  case (3 j ops s)
  then show ?case using inv_release [of s j] by (auto simp: used_release)
qed simp

lemma alloc_then_distinct:
  assumes "inv s" "fst (alloc s) \<noteq> 0" "Release (fst (alloc s)) \<notin> set ops"
  shows "fst (alloc s) \<notin> set (fst (id_run ops (snd (alloc s))))"
  using no_reuse_before_release [of "snd (alloc s)" "fst (alloc s)" ops] assms
  by (simp add: inv_alloc used_alloc)

end

text \<open>
  The invariant of the ID fields and the IDs handed out: those below \<open>nextID\<close> that
  are not on the free list.
\<close>

definition id_inv :: "display \<Rightarrow> bool" where
  "id_inv d \<longleftrightarrow>
     2 \<le> d_nextID d \<and> d_nextID d \<le> 0xff000000 \<and> distinct (d_freeIDs d) \<and>
     (\<forall>i \<in> set (d_freeIDs d). 2 \<le> i \<and> i < d_nextID d) \<and> d_retiredIDs d = set (d_freeIDs d)"

definition used_ids :: "display \<Rightarrow> u32 set" where
  "used_ids d = {i. 2 \<le> i \<and> i < d_nextID d} - set (d_freeIDs d)"

lemma word_less_inc:
  fixes n :: u32
  assumes "n < 0xff000000"
  shows "i < n + 1 \<longleftrightarrow> i < n \<or> i = n" "n + 1 \<le> 0xff000000" "2 \<le> n \<Longrightarrow> 2 \<le> n + 1"
proof -
  have u: "unat (n + 1) = unat n + 1"
    using assms by (simp add: word_less_nat_alt unat_word_ariths)
  show "i < n + 1 \<longleftrightarrow> i < n \<or> i = n"
    by (auto simp: word_less_nat_alt u word_unat_eq_iff)
  show "n + 1 \<le> 0xff000000" "2 \<le> n \<Longrightarrow> 2 \<le> n + 1"
    using assms by (auto simp: word_less_nat_alt word_le_nat_alt u)
qed

lemma allocateID_cases:
  obtains (reuse) i fs where "d_freeIDs d = fs @ [i]"
      "allocateID d = (i, d\<lparr>d_freeIDs := fs, d_retiredIDs := d_retiredIDs d - {i}\<rparr>)"
    | (exhausted) "d_freeIDs d = []" "d_nextID d = 0 \<or> d_nextID d \<ge> 0xff000000" "allocateID d = (0, d)"
    | (fresh) "d_freeIDs d = []" "d_nextID d \<noteq> 0" "d_nextID d < 0xff000000"
        "allocateID d = (d_nextID d, d\<lparr>d_nextID := d_nextID d + 1\<rparr>)"
proof (cases "d_freeIDs d" rule: rev_cases)
  case Nil
  then show thesis
    using that(2,3) by (cases "d_nextID d = 0 \<or> d_nextID d \<ge> 0xff000000") (auto simp: allocateID_def)
next
  case (snoc fs i)
  then show thesis using that(1) by (simp add: allocateID_def)
qed

lemma id_inv_allocateID [intro]: "id_inv d \<Longrightarrow> id_inv (snd (allocateID d))"
  by (cases d rule: allocateID_cases) (auto simp: id_inv_def word_less_inc)

lemma delete_id_ok:
  "fst (delete_id d i) = None \<longleftrightarrow>
     2 \<le> i \<and> i < 0xff000000 \<and> i < d_nextID d \<and> i \<notin> d_retiredIDs d \<and>
     (\<forall>ob. objectAt d i = Some ob \<longrightarrow> (\<exists>a. ob = ZombieObj a))"
  by (auto simp: delete_id_def Let_def not_less not_le split: option.splits object.splits)

lemma id_state_delete_id:
  "id_state (snd (delete_id d i)) =
     (if fst (delete_id d i) = None then (d_nextID d, d_freeIDs d @ [i], insert i (d_retiredIDs d)) else id_state d)"
  by (auto simp: delete_id_def Let_def id_state_def split: option.splits object.splits)

lemma id_inv_state: "id_state d = (n, fs, rs) \<Longrightarrow>
  id_inv d \<longleftrightarrow> 2 \<le> n \<and> n \<le> 0xff000000 \<and> distinct fs \<and> (\<forall>i \<in> set fs. 2 \<le> i \<and> i < n) \<and> rs = set fs"
  by (auto simp: id_inv_def id_state_def)

lemma id_inv_cong: "id_state d = id_state d' \<Longrightarrow> id_inv d = id_inv d'"
  by (simp add: id_inv_def id_state_def)

lemma id_inv_delete_id [intro]: "id_inv d \<Longrightarrow> id_inv (snd (delete_id d i))"
proof (cases "fst (delete_id d i) = None")
  case True
  assume inv: "id_inv d"
  have "id_state (snd (delete_id d i)) = (d_nextID d, d_freeIDs d @ [i], insert i (d_retiredIDs d))"
    using True by (simp add: id_state_delete_id)
  then show ?thesis
    using inv True [unfolded delete_id_ok] by (simp add: id_inv_state) (auto simp: id_inv_def)
next
  case False
  then show "id_inv d \<Longrightarrow> ?thesis" by (metis id_inv_cong id_state_delete_id)
qed

interpretation ids: id_allocator id_inv allocateID delete_id used_ids
proof
  fix d i assume inv: "id_inv d"
  show "id_inv (snd (allocateID d))" "id_inv (snd (delete_id d i))" using inv by auto
  show "fst (allocateID d) \<noteq> 0 \<Longrightarrow> fst (allocateID d) \<notin> used_ids d"
    by (cases d rule: allocateID_cases) (auto simp: used_ids_def)
  show "used_ids (snd (allocateID d)) =
      (if fst (allocateID d) = 0 then used_ids d else insert (fst (allocateID d)) (used_ids d))"
    using inv by (cases d rule: allocateID_cases) (auto simp: used_ids_def id_inv_def word_less_inc)
  show "used_ids (snd (delete_id d i)) = (if fst (delete_id d i) = None then used_ids d - {i} else used_ids d)"
    using id_state_delete_id [of d i] by (auto simp: used_ids_def id_state_def split: if_splits)
  show "fst (delete_id d i) = None \<Longrightarrow> i \<in> used_ids d"
    using inv by (auto simp: delete_id_ok used_ids_def id_inv_def)
  show "0 \<notin> used_ids d" by (simp add: used_ids_def)
qed

section \<open>The two object tables\<close>

text \<open>
  The context's table of registered proxies and the display's table of event
  targets agree: an ID maps to a proxy in one exactly when it does in the other.
\<close>

definition tables_inv :: "display \<Rightarrow> bool" where
  "tables_inv d \<longleftrightarrow> (\<forall>i a. proxyAt d i = Some a \<longleftrightarrow> objectAt d i = Some (ProxyObj a))"

lemma tables_inv_cong: "tab_state d = tab_state d' \<Longrightarrow> tables_inv d = tables_inv d'"
  by (simp add: tables_inv_def tab_state_def)

lemma tables_inv_Register [intro]: "tables_inv d \<Longrightarrow> tables_inv (Register d p)"
  by (auto simp: tables_inv_def Register_def split: option.splits)

lemma tables_inv_Unregister [intro]: "tables_inv d \<Longrightarrow> tables_inv (Unregister d p)"
  by (auto simp: tables_inv_def Unregister_def split: option.splits)

lemma tables_inv_UnregisterID [intro]: "tables_inv d \<Longrightarrow> tables_inv (UnregisterID d i)"
  by (auto simp: tables_inv_def UnregisterID_def)

lemma CheckProxy_None:
  "CheckProxy d p = None \<longleftrightarrow>
     \<not> cx_closed (d_context d) \<and>
     (\<exists>a. p = Some a \<and> pid d a \<noteq> 0 \<and> p_context (d_heap d a) = Some (cx_ref (d_context d)) \<and>
        proxyAt d (pid d a) = Some a)"
  by (auto simp: CheckProxy_def split: option.splits)

text \<open>A successful claim, written out.\<close>

lemma claimDestroy_ok:
  assumes "CheckProxy d (Some a) = None"
  shows "claimDestroy d (Some a) =
    (None, d\<lparr>d_context := (d_context d)\<lparr>cx_proxies := Delete (cx_proxies (d_context d)) (pid d a)\<rparr>,
             d_objects := snd (CompareAndSwap (d_objects d) (pid d a) (ProxyObj a) (ZombieObj a))\<rparr>)"
  using assms CheckProxy_None [of d "Some a"] by (simp add: claimDestroy_def CompareAndDelete_def)

lemma claimDestroy_error: "CheckProxy d p = Some err \<Longrightarrow> claimDestroy d p = (Some err, d)"
  by (simp add: claimDestroy_def)

lemma claimDestroy_cases:
  obtains (refused) err where "CheckProxy d p = Some err" "claimDestroy d p = (Some err, d)"
    | (claimed) a where "p = Some a" "CheckProxy d (Some a) = None"
        "claimDestroy d p =
          (None, d\<lparr>d_context := (d_context d)\<lparr>cx_proxies := Delete (cx_proxies (d_context d)) (pid d a)\<rparr>,
                   d_objects := snd (CompareAndSwap (d_objects d) (pid d a) (ProxyObj a) (ZombieObj a))\<rparr>)"
proof (cases "CheckProxy d p")
  case None
  then obtain a where "p = Some a" by (auto simp: CheckProxy_None)
  then show ?thesis using claimed None claimDestroy_ok by simp
qed (use refused claimDestroy_error in auto)

lemma tables_inv_claimDestroy [intro]: "tables_inv d \<Longrightarrow> tables_inv (snd (claimDestroy d p))"
  by (cases rule: claimDestroy_cases [of d p]) (auto simp: tables_inv_def CheckProxy_None)

lemma tables_inv_delete_id [intro]: "tables_inv d \<Longrightarrow> tables_inv (snd (delete_id d i))"
  by (auto simp: tables_inv_def delete_id_def Let_def split: option.splits object.splits)

text \<open>After the claim the object is a zombie and no check or claim on it succeeds.\<close>

lemma claimDestroy_zombie:
  assumes "tables_inv d" "fst (claimDestroy d (Some a)) = None"
  shows "objectAt (snd (claimDestroy d (Some a))) (pid d a) = Some (ZombieObj a)"
    and "proxyAt (snd (claimDestroy d (Some a))) (pid d a) = None"
    and "CheckProxy (snd (claimDestroy d (Some a))) (Some a) \<noteq> None"
  using assms
  by (cases rule: claimDestroy_cases [of d "Some a"]; auto simp: tables_inv_def CheckProxy_None)+

lemma claimDestroy_heap [simp]: "d_heap (snd (claimDestroy d p)) = d_heap d"
  by (cases rule: claimDestroy_cases [of d p]) auto

lemma Unregister_zombie:
  assumes "objectAt d (pid d a) = Some (ZombieObj a)"
  shows "objectAt (Unregister d (Some a)) i = objectAt d i"
  using assms by (simp add: Unregister_def)

section \<open>Descriptor accounting\<close>

text \<open>
  Every descriptor received so far is pending, held by the event in flight
  (\<open>held\<close>), closed or taken over by a handler, and only one of these. Negative
  numbers, which the code never closes, are left out on both sides.
\<close>

definition live_fds :: "fd list \<Rightarrow> fd multiset" where
  "live_fds fds = mset (filter (\<lambda>n. 0 \<le> n) fds)"

definition fds_conserved :: "fd multiset \<Rightarrow> display \<Rightarrow> bool" where
  "fds_conserved held d \<longleftrightarrow>
     live_fds (d_recvFDs d) = live_fds (d_pendingFDs d) + held + mset (d_closedFDs d) + mset (d_takenFDs d)"

lemma live_fds_simps [simp]:
  "live_fds [] = {#}" "live_fds (n # ns) = (if 0 \<le> n then {#n#} else {#}) + live_fds ns"
  "live_fds (ns @ ks) = live_fds ns + live_fds ks"
  by (simp_all add: live_fds_def)

lemma fds_conserved_cong: "fd_state d = fd_state d' \<Longrightarrow> fds_conserved held d = fds_conserved held d'"
  by (simp add: fds_conserved_def fd_state_def)

lemma fds_conserved_closePending [intro]: "fds_conserved held d \<Longrightarrow> fds_conserved held (closePendingFDs d)"
  by (simp add: fds_conserved_def closePendingFDs_def live_fds_def add_ac)

lemma fds_conserved_Close [intro]: "fds_conserved held d \<Longrightarrow> fds_conserved held (snd (Close d))"
  by (simp add: fds_conserved_def Close_def Let_def case_prod_beta closePendingFDs_def live_fds_def add_ac)

lemma Close_pending: "\<not> d_closed d \<Longrightarrow> d_pendingFDs (snd (Close d)) = []"
  by (simp add: Close_def Let_def case_prod_beta closePendingFDs_def)

section \<open>Properties\<close>

text \<open>
  C12: an object ID that \<^verbatim>\<open>allocateID\<close> returned is not returned again by any later
  sequence of allocations and \<^verbatim>\<open>delete_id\<close> events, unless the sequence has a
  \<^verbatim>\<open>delete_id\<close> for it.
\<close>

theorem allocateID_no_reuse:
  assumes "id_inv d" "fst (allocateID d) \<noteq> 0" "Release (fst (allocateID d)) \<notin> set ops"
  shows "fst (allocateID d) \<notin> set (fst (ids.id_run ops (snd (allocateID d))))"
  using assms by (rule ids.alloc_then_distinct)

text \<open>A connection that was just made, on a socket that delivers nothing.\<close>

definition idle_conn :: netConn where
  "idle_conn = \<lparr>cn_closed = False, cn_in = [], cn_wres = [], cn_out = [], cn_closeErr = None\<rparr>"

definition fresh_display :: display where
  "fresh_display = newDisplay idle_conn True 0 (\<lambda>_. BaseProxy 0 None 0) 0"

lemma newDisplay_simps [simp]:
  "d_conn (newDisplay c x ref h b) = c" "d_unix (newDisplay c x ref h b) = x"
  "d_nextID (newDisplay c x ref h b) = 3" "d_freeIDs (newDisplay c x ref h b) = []"
  "d_retiredIDs (newDisplay c x ref h b) = {}" "r_id (d_registry (newDisplay c x ref h b)) = 2"
  "r_globals (d_registry (newDisplay c x ref h b)) = Map.empty"
  "r_handlers (d_registry (newDisplay c x ref h b)) = (\<lambda>_. [])"
  "r_removeHandlers (d_registry (newDisplay c x ref h b)) = []"
  "d_context (newDisplay c x ref h b) = \<lparr>cx_ref = ref, cx_proxies = emptyTable, cx_closed = False\<rparr>"
  "d_rbuf (newDisplay c x ref h b) = []" "d_rpos (newDisplay c x ref h b) = 0"
  "d_readErr (newDisplay c x ref h b) = None" "d_maxMsgLen (newDisplay c x ref h b) = 0"
  "d_closed (newDisplay c x ref h b) = False" "d_pendingFDs (newDisplay c x ref h b) = []"
  "d_heap (newDisplay c x ref h b) = h" "d_brk (newDisplay c x ref h b) = b"
  "d_recvFDs (newDisplay c x ref h b) = []" "d_closedFDs (newDisplay c x ref h b) = []"
  "d_takenFDs (newDisplay c x ref h b) = []" "d_sentClosed (newDisplay c x ref h b) = []"
  "d_trace (newDisplay c x ref h b) = []" "d_signatures (newDisplay c x ref h b) = Map.empty"
  "objectAt (newDisplay c x ref h b) i =
     (if i = 1 then Some DisplayObj else if i = 2 then Some RegistryObj else None)"
  by (simp_all add: newDisplay_def NewContext_def allocateID_def Let_def displayObjectID_def)

lemma newDisplay_inv [simp]:
  "id_inv (newDisplay c x ref h b)" "tables_inv (newDisplay c x ref h b)"
  "fds_conserved {#} (newDisplay c x ref h b)"
  by (simp_all add: id_inv_def tables_inv_def fds_conserved_def)

lemma fresh_allocateID: "allocateID fresh_display = (3, fresh_display\<lparr>d_nextID := 4\<rparr>)"
  by (simp add: allocateID_def fresh_display_def)

theorem allocateID_no_reuse_witness:
  "fst (allocateID fresh_display) \<notin>
     set (fst (ids.id_run [Alloc, Release 4, Alloc] (snd (allocateID fresh_display))))"
  by (rule allocateID_no_reuse) (simp_all add: fresh_allocateID, simp add: fresh_display_def)

text \<open>
  C19: a \<^verbatim>\<open>delete_id\<close> event is accepted exactly for a client ID that was allocated,
  is not free already and has no live object; the ID then goes to the end of the
  free list, from where the next allocation takes it. A zombie of the ID is
  dropped. Every other \<^verbatim>\<open>delete_id\<close> is a protocol error that leaves the ID state alone.
\<close>

theorem delete_id_exact:
  "(fst (delete_id d i) = None \<longleftrightarrow>
      2 \<le> i \<and> i < 0xff000000 \<and> i < d_nextID d \<and> i \<notin> d_retiredIDs d \<and>
      (objectAt d i = None \<or> (\<exists>a. objectAt d i = Some (ZombieObj a)))) \<and>
   fst (delete_id d i) \<in> {None, Some (ProtocolError ''invalid_delete_id'' i 0 0 ErrMalformedFrame)} \<and>
   id_state (snd (delete_id d i)) =
     (if fst (delete_id d i) = None then (d_nextID d, d_freeIDs d @ [i], insert i (d_retiredIDs d)) else id_state d) \<and>
   objectAt (snd (delete_id d i)) j =
     (if j = i \<and> (\<exists>a. objectAt d i = Some (ZombieObj a)) then None else objectAt d j) \<and>
   (if fst (delete_id d i) = None then fst (allocateID (snd (delete_id d i))) = i else True)"
proof -
  have "fst (delete_id d i) \<in> {None, Some (ProtocolError ''invalid_delete_id'' i 0 0 ErrMalformedFrame)}"
    by (simp add: delete_id_def Let_def)
  moreover have "objectAt (snd (delete_id d i)) j =
     (if j = i \<and> (\<exists>a. objectAt d i = Some (ZombieObj a)) then None else objectAt d j)"
    by (auto simp: delete_id_def Let_def split: option.splits object.splits)
  moreover have "fst (allocateID (snd (delete_id d i))) = i" if "fst (delete_id d i) = None"
    using id_state_delete_id [of d i] that by (simp add: id_state_def allocateID_def)
  ultimately show ?thesis
    using delete_id_ok [of d i] id_state_delete_id [of d i] by (cases "objectAt d i") auto
qed

text \<open>
  Closing an open display marks the display and its context closed, closes the
  socket and every descriptor still pending, and leaves none pending; closing it
  again returns nil and changes nothing.
\<close>

lemma Close_once:
  assumes "\<not> d_closed d"
  shows "d_closed (snd (Close d)) \<and> cx_closed (d_context (snd (Close d))) \<and> cn_closed (d_conn (snd (Close d))) \<and>
    d_pendingFDs (snd (Close d)) = [] \<and>
    d_closedFDs (snd (Close d)) = d_closedFDs d @ filter (\<lambda>n. n \<ge> 0) (d_pendingFDs d) \<and>
    Close (snd (Close d)) = (None, snd (Close d))"
  using assms by (simp add: Close_def Let_def case_prod_beta closePendingFDs_def conn_Close_def)

text \<open>A display with one proxy, allocated at address 0 and registered under ID 3.\<close>

definition one_proxy_display :: display where
  "one_proxy_display =
     Register ((snd (allocateID fresh_display))\<lparr>d_heap := (\<lambda>_. BaseProxy 3 (Some 0) 1), d_brk := 1\<rparr>) (Some 0)"

lemma one_proxy_display_eq:
  "one_proxy_display = fresh_display\<lparr>d_nextID := 4, d_heap := (\<lambda>_. BaseProxy 3 (Some 0) 1), d_brk := 1,
     d_context := (d_context fresh_display)\<lparr>cx_proxies := Store emptyTable 3 0\<rparr>,
     d_objects := Store (d_objects fresh_display) 3 (ProxyObj 0)\<rparr>"
  unfolding one_proxy_display_def fresh_allocateID
  by (simp add: Register_def BaseProxy_def) (simp add: fresh_display_def)

lemma one_proxy_display_inv: "tables_inv one_proxy_display" "id_inv one_proxy_display"
    "fds_conserved {#} one_proxy_display" "CheckProxy one_proxy_display (Some 0) = None"
  by (simp_all add: one_proxy_display_eq tables_inv_def id_inv_def fds_conserved_def CheckProxy_def BaseProxy_def)
     (simp_all add: fresh_display_def)

end
