(* ===== verification/Requests.thy ===== *)
theory Requests
  imports Display
begin

text \<open>
  The send path: \<^verbatim>\<open>sendmsgWithFDs\<close> (\<^verbatim>\<open>scm_linux.go\<close>), \<^verbatim>\<open>sendRequest\<close> (\<^verbatim>\<open>client.go\<close>) and the
  request methods of \<^verbatim>\<open>Context\<close> (\<^verbatim>\<open>core.go\<close>) up to \<^verbatim>\<open>Request\<close> and \<^verbatim>\<open>RequestArgs\<close> with the
  whole lifecycle of a child object and of sent descriptors, and \<^verbatim>\<open>Sync\<close>. An
  error is \<open>Some\<close>, nil is \<open>None\<close>. A guard runs under the send lock between the
  marshalling and the write, so it is a step of the same operation here.

  The lemmas say what each operation writes (one whole message or nothing), what
  it leaves unchanged when it fails, and which part of the connection state it
  can touch at all.
\<close>

section \<open>Writing a message\<close>

type_synonym guard = "display \<Rightarrow> error option \<times> display"

definition sendmsgWithFDs :: "display \<Rightarrow> bytes \<Rightarrow> fd list \<Rightarrow> guard option \<Rightarrow> error option \<times> display" where
  "sendmsgWithFDs d buf fds guard =
     (if d_closed d then (Some NetErrClosed, d)
      else if fds \<noteq> [] \<and> \<not> d_unix d
        then (Some (Errorf ''wlturbo: cannot send file descriptors over a non-Unix connection''), d)
      else case (case guard of None \<Rightarrow> (None, d) | Some g \<Rightarrow> g d) of
             (Some err, d1) \<Rightarrow> (Some err, d1)
           | (None, d1) \<Rightarrow>
               let ((n, werr), c) = conn_Write (d_conn d1) buf fds;
                   err = (if werr = None \<and> n \<noteq> length buf then Some IoErrShortWrite else werr)
               in if err \<noteq> None then (err, d1\<lparr>d_conn := snd (conn_Close c)\<rparr>)
                  else (None, d1\<lparr>d_conn := c\<rparr>))"

definition sendRequest ::
  "display \<Rightarrow> u32 \<Rightarrow> u16 \<Rightarrow> fd list \<Rightarrow> guard option \<Rightarrow> goval list \<Rightarrow> Arg list \<Rightarrow> error option \<times> display" where
  "sendRequest d objectID opcode fds guard args vals =
     (case encodeRequest (objID d) objectID opcode args vals of
        Inl err \<Rightarrow> (Some err, d)
      | Inr data \<Rightarrow> sendmsgWithFDs d data fds guard)"

definition Display_SendRequestWithFDs ::
  "display \<Rightarrow> u32 \<Rightarrow> u16 \<Rightarrow> fd list \<Rightarrow> goval list \<Rightarrow> error option \<times> display" where
  "Display_SendRequestWithFDs d objectID opcode fds args = sendRequest d objectID opcode fds None args []"

definition Display_SendRequest :: "display \<Rightarrow> u32 \<Rightarrow> u16 \<Rightarrow> goval list \<Rightarrow> error option \<times> display" where
  "Display_SendRequest d objectID opcode args = Display_SendRequestWithFDs d objectID opcode [] args"

section \<open>Requests through the context\<close>

text \<open>The two checks that \<^verbatim>\<open>sendChecked\<close> takes.\<close>

datatype check = PlainCheck | DestroyCheck

fun run_check :: "check \<Rightarrow> addr option \<Rightarrow> guard" where
  "run_check PlainCheck p d = (CheckProxy d p, d)"
| "run_check DestroyCheck p d = claimDestroy d p"

definition sendChecked ::
  "display \<Rightarrow> addr option \<Rightarrow> u32 \<Rightarrow> fd list \<Rightarrow> check \<Rightarrow> goval list \<Rightarrow> Arg list \<Rightarrow> error option \<times> display" where
  "sendChecked d p opcode fds chk args vals =
     (case CheckProxy d p of
        Some err \<Rightarrow> (Some err, d)
      | None \<Rightarrow> sendRequest d (pid d (the p)) (ucast opcode) fds (Some (run_check chk p)) args vals)"

definition Context_SendRequestWithFDs ::
  "display \<Rightarrow> addr option \<Rightarrow> u32 \<Rightarrow> fd list \<Rightarrow> goval list \<Rightarrow> error option \<times> display" where
  "Context_SendRequestWithFDs d p opcode fds args = sendChecked d p opcode fds PlainCheck args []"

definition Context_SendRequest :: "display \<Rightarrow> addr option \<Rightarrow> u32 \<Rightarrow> goval list \<Rightarrow> error option \<times> display" where
  "Context_SendRequest d p opcode args = Context_SendRequestWithFDs d p opcode [] args"

definition SendDestructorWithFDs ::
  "display \<Rightarrow> addr option \<Rightarrow> u32 \<Rightarrow> fd list \<Rightarrow> goval list \<Rightarrow> error option \<times> display" where
  "SendDestructorWithFDs d p opcode fds args = sendChecked d p opcode fds DestroyCheck args []"

definition SendDestructor :: "display \<Rightarrow> addr option \<Rightarrow> u32 \<Rightarrow> goval list \<Rightarrow> error option \<times> display" where
  "SendDestructor d p opcode args = SendDestructorWithFDs d p opcode [] args"

record Request =
  rq_proxy :: "addr option"
  rq_opcode :: u32
  rq_name :: string
  rq_since :: u32
  rq_destructor :: bool
  rq_child :: "addr option"
  rq_fds :: "fd list"

text \<open>The branch \<^verbatim>\<open>if r.Child != nil\<close> of \<^verbatim>\<open>request\<close>: allocate, inherit the version, register.\<close>

definition adopt_child :: "display \<Rightarrow> addr \<Rightarrow> addr \<Rightarrow> display" where
  "adopt_child d parent child =
     (let (ident, d1) = Context_AllocateID d;
          d2 = SetID d1 child ident;
          d3 = (if p_hasVersion (d_heap d2 parent) \<and> p_hasSetVersion (d_heap d2 child)
                then SetVersion d2 child (proxyVersion d2 parent) else d2)
      in Register d3 (Some child))"

text \<open>\<^verbatim>\<open>CloseSentFD\<close>, which logs the descriptor it closes.\<close>

definition CloseSentFD :: "fd \<Rightarrow> display \<Rightarrow> display" where
  "CloseSentFD n d = d\<lparr>d_sentClosed := d_sentClosed d @ [n]\<rparr>"

lemma fold_CloseSentFD [simp]:
  "fold CloseSentFD ns d = d\<lparr>d_sentClosed := d_sentClosed d @ ns\<rparr>"
  by (induction ns arbitrary: d) (simp_all add: CloseSentFD_def)

definition request :: "display \<Rightarrow> Request \<Rightarrow> goval list \<Rightarrow> Arg list \<Rightarrow> bool \<Rightarrow> error option \<times> display" where
  "request d r args vals typed =
     (if typed \<and> length (filter (\<lambda>v. arg_kind v = argFD) vals) \<noteq> length (rq_fds r)
      then (Some (Errorf (''wlturbo: '' @ rq_name r @ '': '' @ digits (length (filter (\<lambda>v. arg_kind v = argFD) vals)) @
              '' fd arguments but '' @ digits (length (rq_fds r)) @ '' descriptors'')), d)
      else case CheckProxy d (rq_proxy r) of
        Some err \<Rightarrow> (Some err, d)
      | None \<Rightarrow>
          let a = the (rq_proxy r)
          in case (if p_hasVersion (d_heap d a)
                   then CheckVersion (proxyVersion d a) (rq_since r) (rq_name r) else None) of
               Some err \<Rightarrow> (Some err, d)
             | None \<Rightarrow>
                 let d1 = (case rq_child r of None \<Rightarrow> d | Some c \<Rightarrow> adopt_child d a c);
                     (err, d2) = sendChecked d1 (rq_proxy r) (rq_opcode r) (rq_fds r)
                        (if rq_destructor r then DestroyCheck else PlainCheck) args vals
                 in if err \<noteq> None
                    then (err, case rq_child r of None \<Rightarrow> d2 | Some c \<Rightarrow> Unregister d2 (Some c))
                    else (None, fold CloseSentFD (rq_fds r) d2))"

definition Context_Request :: "display \<Rightarrow> Request \<Rightarrow> goval list \<Rightarrow> error option \<times> display" where
  "Context_Request d r args = request d r args [] False"

definition RequestArgs :: "display \<Rightarrow> Request \<Rightarrow> Arg list \<Rightarrow> error option \<times> display" where
  "RequestArgs d r args = request d r [] args True"

section \<open>Bootstrap requests\<close>

definition getRegistry :: "display \<Rightarrow> error option \<times> display" where
  "getRegistry d = Display_SendRequest d displayObjectID 1 [GUint32 (r_id (d_registry d))]"

text \<open>On failure the display is closed and only the error is returned to the caller.\<close>

definition ConnectFromConn ::
  "netConn \<Rightarrow> bool \<Rightarrow> nat \<Rightarrow> (addr \<Rightarrow> proxy) \<Rightarrow> addr \<Rightarrow> error option \<times> display" where
  "ConnectFromConn c isUnix ref heap brk =
     (case getRegistry (newDisplay c isUnix ref heap brk) of
        (Some err, d) \<Rightarrow> (Some (Wrap ''get registry: '' err []), snd (Close d))
      | (None, d) \<Rightarrow> (None, d))"

text \<open>\<^verbatim>\<open>&callbackObject{...}\<close> is a new address of the heap.\<close>

definition Sync :: "display \<Rightarrow> addr result \<times> display" where
  "Sync d =
     (let (callbackID, d1) = allocateID d;
          callback = d_brk d1;
          d2 = d1\<lparr>d_brk := Suc callback,
                  d_heap := (d_heap d1)(callback := callbackObject callbackID (Some (cx_ref (d_context d1))))\<rparr>;
          d3 = Register d2 (Some callback)
      in case Display_SendRequest d3 1 0 [GUint32 callbackID] of
           (Some err, d4) \<Rightarrow> (Inl err, Unregister d4 (Some callback))
         | (None, d4) \<Rightarrow> (Inr callback, d4))"

lemmas request_op_defs [op_defs] = sendRequest_def Display_SendRequestWithFDs_def Display_SendRequest_def
  Context_SendRequestWithFDs_def Context_SendRequest_def SendDestructorWithFDs_def SendDestructor_def
  Context_Request_def RequestArgs_def getRegistry_def

section \<open>What a send does\<close>

definition sent_messages :: "display \<Rightarrow> (bytes \<times> fd list) list" where
  "sent_messages d = cn_out (d_conn d)"

text \<open>
  The guard of a send, seen from outside: it fails and the state is what it left,
  or it succeeds and the write follows.
\<close>

definition run_guard :: "guard option \<Rightarrow> display \<Rightarrow> error option \<times> display" where
  "run_guard guard d = (case guard of None \<Rightarrow> (None, d) | Some g \<Rightarrow> g d)"

lemma conn_Write_ok:
  "conn_Write c buf fds = ((length buf, None), c') \<Longrightarrow>
     cn_out c' = cn_out c @ [(buf, fds)] \<and> \<not> cn_closed c \<and> \<not> cn_closed c'"
  by (auto simp: conn_Write_def split: if_splits list.splits)

lemma conn_Write_in [simp]: "cn_in (snd (conn_Write c buf fds)) = cn_in c"
  by (auto simp: conn_Write_def split: list.splits)

lemma conn_Close_in [simp]: "cn_in (snd (conn_Close c)) = cn_in c"
  by (simp add: conn_Close_def)

lemma sendmsg_cases:
  obtains (closed) "d_closed d" "sendmsgWithFDs d buf fds g = (Some NetErrClosed, d)"
    | (notunix) err where "fds \<noteq> []" "\<not> d_unix d" "sendmsgWithFDs d buf fds g = (Some err, d)"
    | (refused) err d1 where "run_guard g d = (Some err, d1)" "sendmsgWithFDs d buf fds g = (Some err, d1)"
    | (broken) err d1 c where "run_guard g d = (None, d1)"
        "snd (conn_Write (d_conn d1) buf fds) = c"
        "sendmsgWithFDs d buf fds g = (Some err, d1\<lparr>d_conn := snd (conn_Close c)\<rparr>)"
    | (sent) d1 c where "\<not> d_closed d" "run_guard g d = (None, d1)"
        "conn_Write (d_conn d1) buf fds = ((length buf, None), c)"
        "sendmsgWithFDs d buf fds g = (None, d1\<lparr>d_conn := c\<rparr>)"
proof -
  obtain e d1 where g: "run_guard g d = (e, d1)" by (cases "run_guard g d")
  obtain n werr c where w: "conn_Write (d_conn d1) buf fds = ((n, werr), c)" by (metis surj_pair)
  have s: "sendmsgWithFDs d buf fds g =
      (if d_closed d then (Some NetErrClosed, d)
       else if fds \<noteq> [] \<and> \<not> d_unix d
         then (Some (Errorf ''wlturbo: cannot send file descriptors over a non-Unix connection''), d)
       else case e of Some err \<Rightarrow> (Some err, d1)
         | None \<Rightarrow> (let err = (if werr = None \<and> n \<noteq> length buf then Some IoErrShortWrite else werr)
             in if err \<noteq> None then (err, d1\<lparr>d_conn := snd (conn_Close c)\<rparr>) else (None, d1\<lparr>d_conn := c\<rparr>)))"
    using g w by (auto simp: sendmsgWithFDs_def run_guard_def Let_def split: option.splits)
  show thesis
  proof (cases "d_closed d \<or> (fds \<noteq> [] \<and> \<not> d_unix d) \<or> e \<noteq> None")
    case True
    then show thesis using s g closed notunix refused by (auto split: if_splits)
  next
    case False
    then show thesis
      using s g w broken sent by (auto simp: Let_def split: if_splits)
  qed
qed

lemma run_check_guard [simp]: "run_guard (Some (run_check chk p)) d = run_check chk p d"
  by (simp add: run_guard_def)

lemma sendRequest_cases:
  obtains (unencoded) err where "encodeRequest (objID d) ob oc args vals = Inl err"
      "sendRequest d ob oc fds g args vals = (Some err, d)"
    | (encoded) data where "encodeRequest (objID d) ob oc args vals = Inr data"
      "sendRequest d ob oc fds g args vals = sendmsgWithFDs d data fds g"
  by (cases "encodeRequest (objID d) ob oc args vals") (auto simp: sendRequest_def)

section \<open>Invariants of the connection\<close>

text \<open>
  A property of the connection that every primitive update of the request path
  keeps is kept by every request operation. The laws are the primitive updates;
  the lemmas are the operations.
\<close>

locale request_invariant =
  fixes I :: "display \<Rightarrow> bool"
  assumes conn_Write: "I d \<Longrightarrow> I (d\<lparr>d_conn := snd (conn_Write (d_conn d) buf fds)\<rparr>)"
    and conn_Close: "I d \<Longrightarrow> I (d\<lparr>d_conn := snd (conn_Close (d_conn d))\<rparr>)"
    and sentClosed: "I d \<Longrightarrow> I (d\<lparr>d_sentClosed := fs\<rparr>)"
    and new_object: "I d \<Longrightarrow> I (d\<lparr>d_brk := b, d_heap := h\<rparr>)"
    and allocateID: "I d \<Longrightarrow> I (snd (allocateID d))"
    and SetID: "I d \<Longrightarrow> I (SetID d a i)"
    and SetContext: "I d \<Longrightarrow> I (SetContext d a x)"
    and SetVersion: "I d \<Longrightarrow> I (SetVersion d a v)"
    and Register: "I d \<Longrightarrow> I (Register d p)"
    and Unregister: "I d \<Longrightarrow> I (Unregister d p)"
    and claimDestroy: "I d \<Longrightarrow> I (snd (claimDestroy d p))"
begin

lemma run_check: "I d \<Longrightarrow> I (snd (run_check chk p d))"
  by (cases chk) (simp_all add: claimDestroy)

lemma sendmsg_guarded: "I d \<Longrightarrow> I (snd (run_guard g d)) \<Longrightarrow> I (snd (sendmsgWithFDs d buf fds g))"
proof (cases rule: sendmsg_cases [of d buf fds g])
  case (broken err d1 c)
  then show "I (snd (run_guard g d)) \<Longrightarrow> ?thesis"
    using conn_Close [OF conn_Write, of d1 buf fds] by simp
next
  case (sent d1 c)
  then show "I (snd (run_guard g d)) \<Longrightarrow> ?thesis" using conn_Write [of d1 buf fds] by simp
qed auto

lemma sendRequest_guarded: "I d \<Longrightarrow> I (snd (run_guard g d)) \<Longrightarrow> I (snd (sendRequest d ob oc fds g args vals))"
  by (cases rule: sendRequest_cases [of d ob oc args vals fds g]) (auto simp: sendmsg_guarded)

lemma Display_SendRequest: "I d \<Longrightarrow> I (snd (Display_SendRequest d ob oc args))"
  by (simp add: Display_SendRequest_def Display_SendRequestWithFDs_def sendRequest_guarded run_guard_def)

lemma sendChecked: "I d \<Longrightarrow> I (snd (sendChecked d p oc fds chk args vals))"
  by (simp add: sendChecked_def sendRequest_guarded run_check split: option.splits)

lemma adopt_child: "I d \<Longrightarrow> I (adopt_child d a c)"
  by (simp add: adopt_child_def Let_def case_prod_beta Register SetVersion SetID allocateID)

lemma request: "I d \<Longrightarrow> I (snd (request d r args vals typed))"
proof -
  assume I: "I d"
  let ?d1 = "case rq_child r of None \<Rightarrow> d | Some c \<Rightarrow> adopt_child d (the (rq_proxy r)) c"
  let ?chk = "if rq_destructor r then DestroyCheck else PlainCheck"
  have "I ?d1" using I by (simp add: adopt_child split: option.splits)
  then have "I (snd (sendChecked ?d1 (rq_proxy r) (rq_opcode r) (rq_fds r) ?chk args vals))"
    by (rule sendChecked)
  then show ?thesis
    using I by (auto simp: request_def Let_def case_prod_beta Unregister sentClosed split: option.splits)
qed

lemma Sync: "I d \<Longrightarrow> I (snd (Sync d))"
proof -
  assume I: "I d"
  define d1 where "d1 = snd (allocateID d)"
  let ?cb = "callbackObject (fst (allocateID d)) (Some (cx_ref (d_context d1)))"
  let ?d3 = "Register (d1\<lparr>d_brk := Suc (d_brk d1), d_heap := (d_heap d1)(d_brk d1 := ?cb)\<rparr>) (Some (d_brk d1))"
  have "I ?d3" by (intro Register new_object) (simp add: d1_def I allocateID)
  then have "I (snd (Display_SendRequest ?d3 1 0 [GUint32 (fst (allocateID d))]))"
    by (rule Display_SendRequest)
  then show ?thesis
    by (auto simp: Sync_def Let_def case_prod_beta d1_def Unregister split: option.splits prod.splits)
qed

end

lemma id_inv_frame [simp]:
  "id_inv (d\<lparr>d_conn := c\<rparr>) = id_inv d" "id_inv (d\<lparr>d_sentClosed := fs\<rparr>) = id_inv d"
  "id_inv (d\<lparr>d_brk := b, d_heap := h\<rparr>) = id_inv d"
  by (simp_all add: id_inv_def)

interpretation id_req: request_invariant id_inv
  by unfold_locales (auto simp: frame_simps cong: id_inv_cong)

lemma tables_inv_frame [simp]:
  "tables_inv (d\<lparr>d_conn := c\<rparr>) = tables_inv d" "tables_inv (d\<lparr>d_sentClosed := fs\<rparr>) = tables_inv d"
  "tables_inv (d\<lparr>d_brk := b, d_heap := h\<rparr>) = tables_inv d"
  by (simp_all add: tables_inv_def)

lemma tables_inv_prims [simp]:
  "tables_inv (snd (allocateID d)) = tables_inv d" "tables_inv (SetID d a i) = tables_inv d"
  "tables_inv (SetContext d a x) = tables_inv d" "tables_inv (SetVersion d a v) = tables_inv d"
  by (rule tables_inv_cong, simp add: frame_simps)+

interpretation tab_req: request_invariant tables_inv
  by unfold_locales auto

lemma fds_conserved_frame [simp]:
  "fds_conserved held (d\<lparr>d_conn := c\<rparr>) = fds_conserved held d"
  "fds_conserved held (d\<lparr>d_sentClosed := fs\<rparr>) = fds_conserved held d"
  "fds_conserved held (d\<lparr>d_brk := b, d_heap := h\<rparr>) = fds_conserved held d"
  by (simp_all add: fds_conserved_def)

lemma fds_conserved_prims [simp]:
  "fds_conserved held (snd (allocateID d)) = fds_conserved held d"
  "fds_conserved held (SetID d a i) = fds_conserved held d"
  "fds_conserved held (SetContext d a x) = fds_conserved held d"
  "fds_conserved held (SetVersion d a v) = fds_conserved held d"
  "fds_conserved held (Register d p) = fds_conserved held d"
  "fds_conserved held (Unregister d p) = fds_conserved held d"
  "fds_conserved held (snd (claimDestroy d p)) = fds_conserved held d"
  by (rule fds_conserved_cong, simp add: frame_simps)+

interpretation fd_req: request_invariant "fds_conserved held" for held
  by unfold_locales auto

section \<open>One whole message, or nothing\<close>

lemma claimDestroy_conn [simp]:
  "d_conn (snd (claimDestroy d p)) = d_conn d" "d_closed (snd (claimDestroy d p)) = d_closed d"
  by (cases rule: claimDestroy_cases [of d p]; simp)+

lemma run_check_conn [simp]:
  "d_conn (snd (run_check chk p d)) = d_conn d" "d_closed (snd (run_check chk p d)) = d_closed d"
  by (cases chk; simp)+

lemma conn_Write_closed: "cn_closed c \<Longrightarrow> conn_Write c buf fds = ((0, Some NetErrClosed), c)"
  by (simp add: conn_Write_def)

lemma conn_Close_closed [simp]: "cn_closed (snd (conn_Close c))" "cn_out (snd (conn_Close c)) = cn_out c"
  by (simp_all add: conn_Close_def)

lemma sendmsg_outcome:
  assumes g: "d_conn (snd (run_guard g d)) = d_conn d"
  obtains (sent) "fst (sendmsgWithFDs d buf fds g) = None" "fst (run_guard g d) = None" "\<not> d_closed d"
      "sent_messages (snd (sendmsgWithFDs d buf fds g)) = sent_messages d @ [(buf, fds)]"
      "\<exists>c. snd (sendmsgWithFDs d buf fds g) = (snd (run_guard g d))\<lparr>d_conn := c\<rparr>"
    | (silent) err where "fst (sendmsgWithFDs d buf fds g) = Some err"
      "d_conn (snd (sendmsgWithFDs d buf fds g)) = d_conn d"
    | (broken) err where "fst (sendmsgWithFDs d buf fds g) = Some err"
      "cn_closed (d_conn (snd (sendmsgWithFDs d buf fds g)))"
proof (cases rule: sendmsg_cases [of d buf fds g])
  case closed
  then show ?thesis using silent by simp
next
  case (notunix err)
  then show ?thesis using silent by simp
next
  case (refused err d1)
  then show ?thesis using silent g by simp
next
  case (broken err d1 c)
  then show ?thesis using that(3) by simp
next
  case (sent d1 c)
  then show ?thesis using that(1) g conn_Write_ok [OF sent(3)] by (auto simp: sent_messages_def)
qed

lemma sendChecked_refused: "CheckProxy d p = Some err \<Longrightarrow> sendChecked d p oc fds chk args vals = (Some err, d)"
  by (simp add: sendChecked_def)

lemma sendChecked_outcome:
  obtains (sent) a f c where "p = Some a" "CheckProxy d p = None" "fst (sendChecked d p oc fds chk args vals) = None"
      "wf_frame f" "f_object f = pid d a" "f_opcode f = ucast oc"
      "body_wire (objID d) (args @ map boxed vals) = Some (f_body f)"
      "sent_messages (snd (sendChecked d p oc fds chk args vals)) = sent_messages d @ [(message_bytes f, fds)]"
      "snd (sendChecked d p oc fds chk args vals) = (snd (run_check chk p d))\<lparr>d_conn := c\<rparr>"
      "fst (run_check chk p d) = None"
    | (silent) err where "fst (sendChecked d p oc fds chk args vals) = Some err"
      "d_conn (snd (sendChecked d p oc fds chk args vals)) = d_conn d"
    | (broken) err where "fst (sendChecked d p oc fds chk args vals) = Some err"
      "cn_closed (d_conn (snd (sendChecked d p oc fds chk args vals)))"
proof (cases "CheckProxy d p")
  case (Some err)
  then show ?thesis using silent by (simp add: sendChecked_refused)
next
  case None
  then obtain a where a: "p = Some a" by (auto simp: CheckProxy_None)
  let ?g = "Some (run_check chk p)"
  have sc: "sendChecked d p oc fds chk args vals = sendRequest d (pid d a) (ucast oc) fds ?g args vals"
    using None a by (simp add: sendChecked_def)
  show ?thesis
  proof (cases rule: sendRequest_cases [of d "pid d a" "ucast oc" args vals fds ?g])
    case (unencoded err)
    then show ?thesis using silent by (simp add: sc)
  next
    case (encoded data)
    obtain f where f: "wf_frame f" "data = message_bytes f" "f_object f = pid d a" "f_opcode f = ucast oc"
        "body_wire (objID d) (args @ map boxed vals) = Some (f_body f)"
      using encodeRequest_wf [OF encoded(1)] by blast
    have g: "d_conn (snd (run_guard ?g d)) = d_conn d" by simp
    show ?thesis
    proof (cases rule: sendmsg_outcome [OF g, of data fds])
      case 1
      then obtain c where "snd (sendmsgWithFDs d data fds ?g) = (snd (run_check chk p d))\<lparr>d_conn := c\<rparr>"
        by auto
      then show ?thesis using sent [of a f c] 1 f a None by (simp add: sc [unfolded a] encoded(2) [unfolded a])
    next
      case (2 err)
      then show ?thesis using silent by (simp add: sc encoded(2))
    next
      case (3 err)
      then show ?thesis using broken by (simp add: sc encoded(2))
    qed
  qed
qed

text \<open>A broken connection stays broken and silent.\<close>

lemma sendmsg_closed_conn:
  assumes "cn_closed (d_conn d)" "d_conn (snd (run_guard g d)) = d_conn d"
  shows "fst (sendmsgWithFDs d buf fds g) \<noteq> None"
    and "sent_messages (snd (sendmsgWithFDs d buf fds g)) = sent_messages d"
    and "cn_closed (d_conn (snd (sendmsgWithFDs d buf fds g)))"
  using assms
  by (cases rule: sendmsg_cases [of d buf fds g]; auto simp: conn_Write_closed sent_messages_def)+

lemma sendRequest_closed_conn:
  assumes "cn_closed (d_conn d)" "d_conn (snd (run_guard g d)) = d_conn d"
  shows "fst (sendRequest d ob oc fds g args vals) \<noteq> None"
    and "sent_messages (snd (sendRequest d ob oc fds g args vals)) = sent_messages d"
    and "cn_closed (d_conn (snd (sendRequest d ob oc fds g args vals)))"
  using assms sendmsg_closed_conn [OF assms]
  by (cases rule: sendRequest_cases [of d ob oc args vals fds g]; simp)+

lemma sendChecked_closed_conn:
  assumes "cn_closed (d_conn d)"
  shows "fst (sendChecked d p oc fds chk args vals) \<noteq> None"
    and "sent_messages (snd (sendChecked d p oc fds chk args vals)) = sent_messages d"
    and "cn_closed (d_conn (snd (sendChecked d p oc fds chk args vals)))"
  using assms sendRequest_closed_conn [OF assms, of "Some (run_check chk p)"]
  by (auto simp: sendChecked_def split: option.splits)

section \<open>Destructors and children\<close>

lemma CheckProxy_conn [simp]: "CheckProxy (d\<lparr>d_conn := c\<rparr>) p = CheckProxy d p"
  by (simp add: CheckProxy_def split: option.split)

lemma SendDestructor_claims:
  assumes "tables_inv d" "fst (SendDestructorWithFDs d (Some a) oc fds args) = None"
  shows "objectAt (snd (SendDestructorWithFDs d (Some a) oc fds args)) (pid d a) = Some (ZombieObj a)"
    and "CheckProxy (snd (SendDestructorWithFDs d (Some a) oc fds args)) (Some a) \<noteq> None"
proof -
  have "fst (claimDestroy d (Some a)) = None \<and>
      (\<exists>c. snd (SendDestructorWithFDs d (Some a) oc fds args) = (snd (claimDestroy d (Some a)))\<lparr>d_conn := c\<rparr>)"
    using assms(2) unfolding SendDestructorWithFDs_def
    by (cases rule: sendChecked_outcome [of "Some a" d oc fds DestroyCheck args "[]"]) auto
  then show "objectAt (snd (SendDestructorWithFDs d (Some a) oc fds args)) (pid d a) = Some (ZombieObj a)"
    and "CheckProxy (snd (SendDestructorWithFDs d (Some a) oc fds args)) (Some a) \<noteq> None"
    using claimDestroy_zombie [OF assms(1)] by auto
qed

lemma request_refused: "CheckProxy d (rq_proxy r) = Some err \<Longrightarrow> \<exists>e. request d r args vals typed = (Some e, d)"
  by (auto simp: request_def)

lemma request_version:
  assumes "CheckProxy d (Some a) = None" "rq_proxy r = Some a" "p_hasVersion (d_heap d a)"
    and "p_version (d_heap d a) \<noteq> 0" "p_version (d_heap d a) < rq_since r"
    and "typed \<Longrightarrow> length (filter (\<lambda>v. arg_kind v = argFD) vals) = length (rq_fds r)"
  shows "request d r args vals typed = (CheckVersion (p_version (d_heap d a)) (rq_since r) (rq_name r), d)"
  using assms by (auto simp: request_def CheckVersion_def)

lemma request_fd_mismatch:
  "length (filter (\<lambda>v. arg_kind v = argFD) vals) \<noteq> length (rq_fds r) \<Longrightarrow>
   \<exists>e. RequestArgs d r vals = (Some e, d)"
  by (auto simp: RequestArgs_def request_def)

text \<open>The state a request sends from, once its checks have passed.\<close>

definition request_base :: "display \<Rightarrow> Request \<Rightarrow> display" where
  "request_base d r = (case rq_child r of None \<Rightarrow> d | Some c \<Rightarrow> adopt_child d (the (rq_proxy r)) c)"

abbreviation request_check :: "Request \<Rightarrow> check" where
  "request_check r \<equiv> (if rq_destructor r then DestroyCheck else PlainCheck)"

abbreviation request_send :: "display \<Rightarrow> Request \<Rightarrow> goval list \<Rightarrow> Arg list \<Rightarrow> error option \<times> display" where
  "request_send d r args vals \<equiv> sendChecked (request_base d r) (rq_proxy r) (rq_opcode r) (rq_fds r)
     (request_check r) args vals"

lemma request_cases:
  obtains (refused) err where "request d r args vals typed = (Some err, d)"
    | (failed) err d2 where "request_send d r args vals = (Some err, d2)"
      "request d r args vals typed = (Some err, case rq_child r of None \<Rightarrow> d2 | Some c \<Rightarrow> Unregister d2 (Some c))"
    | (completed) d2 where "CheckProxy d (rq_proxy r) = None" "request_send d r args vals = (None, d2)"
      "request d r args vals typed = (None, d2\<lparr>d_sentClosed := d_sentClosed d2 @ rq_fds r\<rparr>)"
proof -
  obtain e d2 where s: "request_send d r args vals = (e, d2)" by (metis surj_pair)
  show thesis
  proof (cases "\<exists>err. request d r args vals typed = (Some err, d)")
    case True
    then show thesis using refused by blast
  next
    case False
    then have c: "CheckProxy d (rq_proxy r) = None" using request_refused [of d r] by fastforce
    have "request d r args vals typed =
        (if e \<noteq> None then (e, case rq_child r of None \<Rightarrow> d2 | Some c \<Rightarrow> Unregister d2 (Some c))
         else (None, fold CloseSentFD (rq_fds r) d2))"
      using False c s by (auto simp: request_def request_base_def Let_def split: option.splits if_splits)
    then show thesis using failed [of _ d2] completed [of d2] s c by (cases e) auto
  qed
qed

section \<open>The child of a request\<close>

lemma adopt_child_ok:
  assumes "allocateID d = (i, d0)" "i \<noteq> 0" "\<not> cx_closed (d_context d)"
    and "p_context (d_heap d c) = Some (cx_ref (d_context d))"
  shows "pid (adopt_child d a c) c = i"
    and "proxyAt (adopt_child d a c) j = (if j = i then Some c else proxyAt d j)"
    and "objectAt (adopt_child d a c) j = (if j = i then Some (ProxyObj c) else objectAt d j)"
    and "b \<noteq> c \<Longrightarrow> d_heap (adopt_child d a c) b = d_heap d b"
    and "a \<noteq> c \<Longrightarrow> p_version (d_heap (adopt_child d a c) c) =
      (if p_hasVersion (d_heap d a) \<and> p_hasSetVersion (d_heap d c) then p_version (d_heap d a)
       else p_version (d_heap d c))"
    and "d_sentClosed (adopt_child d a c) = d_sentClosed d" "d_conn (adopt_child d a c) = d_conn d"
proof -
  have d0: "d_context d0 = d_context d" "d_heap d0 = d_heap d" "d_objects d0 = d_objects d"
      "d_sentClosed d0 = d_sentClosed d" "d_conn d0 = d_conn d"
    using assms(1) by (auto simp: allocateID_def Let_def split: if_splits)
  note defs = adopt_child_def Register_def SetID_def SetVersion_def
  show "pid (adopt_child d a c) c = i"
    "proxyAt (adopt_child d a c) j = (if j = i then Some c else proxyAt d j)"
    "objectAt (adopt_child d a c) j = (if j = i then Some (ProxyObj c) else objectAt d j)"
    "b \<noteq> c \<Longrightarrow> d_heap (adopt_child d a c) b = d_heap d b"
    "a \<noteq> c \<Longrightarrow> p_version (d_heap (adopt_child d a c) c) =
      (if p_hasVersion (d_heap d a) \<and> p_hasSetVersion (d_heap d c) then p_version (d_heap d a)
       else p_version (d_heap d c))"
    "d_sentClosed (adopt_child d a c) = d_sentClosed d" "d_conn (adopt_child d a c) = d_conn d"
    by (simp_all add: defs Let_def assms d0)
qed

lemma claimDestroy_sentClosed [simp]: "d_sentClosed (snd (claimDestroy d p)) = d_sentClosed d"
  by (cases rule: claimDestroy_cases [of d p]) auto

lemma sendChecked_sentClosed [simp]:
  "d_sentClosed (snd (sendChecked d p oc fds chk args vals)) = d_sentClosed d"
proof -
  have g: "d_sentClosed (snd (run_guard (Some (run_check chk p)) d)) = d_sentClosed d" by (cases chk) simp_all
  have "d_sentClosed (snd (sendmsgWithFDs d buf fds (Some (run_check chk p)))) = d_sentClosed d" for buf
    by (cases rule: sendmsg_cases [of d buf fds "Some (run_check chk p)"]) (use g in auto)
  then show ?thesis by (simp add: sendChecked_def sendRequest_def split: option.splits sum.splits)
qed

lemma prim_frame [simp]:
  "d_sentClosed (Register d p) = d_sentClosed d" "d_conn (Register d p) = d_conn d"
  "d_sentClosed (SetID d a i) = d_sentClosed d" "d_conn (SetID d a i) = d_conn d"
  "d_sentClosed (SetVersion d a v) = d_sentClosed d" "d_conn (SetVersion d a v) = d_conn d"
  "d_sentClosed (snd (allocateID d)) = d_sentClosed d" "d_conn (snd (allocateID d)) = d_conn d"
  by (simp_all add: Register_def SetID_def SetVersion_def allocateID_def Let_def split: option.split)

lemma adopt_child_frame [simp]:
  "d_sentClosed (adopt_child d a c) = d_sentClosed d" "d_conn (adopt_child d a c) = d_conn d"
  by (simp_all add: adopt_child_def Let_def case_prod_beta)

lemma request_base_frame [simp]:
  "d_sentClosed (request_base d r) = d_sentClosed d" "d_conn (request_base d r) = d_conn d"
  by (simp_all add: request_base_def split: option.splits)

lemma Unregister_frame [simp]:
  "d_sentClosed (Unregister d p) = d_sentClosed d" "d_conn (Unregister d p) = d_conn d"
  "d_heap (Unregister d p) = d_heap d"
  by (simp_all add: Unregister_def split: option.splits)

lemma Unregister_gone:
  "objectAt (Unregister d (Some c)) (pid d c) \<noteq> Some (ProxyObj c)"
  "proxyAt (Unregister d (Some c)) (pid d c) \<noteq> Some c"
  by (simp_all add: Unregister_def)

section \<open>Properties\<close>

text \<open>
  C9: a send through the context is all or nothing. Either it returns nil and exactly
  one whole message was written, for the proxy's object, with the encoded arguments
  and the given descriptors; or it returns an error and nothing was written; or it
  returns an error and the connection is closed, so that a partial message cannot
  be followed by another one.
\<close>

theorem send_all_or_nothing:
  "(\<exists>a f. p = Some a \<and> fst (sendChecked d p oc fds chk args vals) = None \<and> wf_frame f \<and>
      f_object f = pid d a \<and> f_opcode f = ucast oc \<and>
      body_wire (objID d) (args @ map boxed vals) = Some (f_body f) \<and>
      sent_messages (snd (sendChecked d p oc fds chk args vals)) = sent_messages d @ [(message_bytes f, fds)]) \<or>
   (\<exists>err. fst (sendChecked d p oc fds chk args vals) = Some err \<and>
      d_conn (snd (sendChecked d p oc fds chk args vals)) = d_conn d) \<or>
   (\<exists>err. fst (sendChecked d p oc fds chk args vals) = Some err \<and>
      cn_closed (d_conn (snd (sendChecked d p oc fds chk args vals))))"
  by (cases rule: sendChecked_outcome [of p d oc fds chk args vals]) blast+

text \<open>
  C17: a request that creates an object and returns nil has registered the child in
  both tables under the newly allocated ID, with the version of its parent, has
  written one message for the parent, and has closed each sent descriptor once.
\<close>

theorem request_child_registered:
  assumes "request d r args vals typed = (None, d')" "rq_proxy r = Some a" "rq_child r = Some c" "a \<noteq> c"
    and "p_context (d_heap d c) = Some (cx_ref (d_context d))" "allocateID d = (i, d0)" "i \<noteq> 0"
  shows "pid d' c = i \<and> objectAt d' i = Some (ProxyObj c) \<and> proxyAt d' i = Some c \<and>
    p_version (d_heap d' c) =
      (if p_hasVersion (d_heap d a) \<and> p_hasSetVersion (d_heap d c) then p_version (d_heap d a)
       else p_version (d_heap d c)) \<and>
    d_sentClosed d' = d_sentClosed d @ rq_fds r \<and>
    (\<exists>f. wf_frame f \<and> f_object f = pid d a \<and> f_opcode f = ucast (rq_opcode r) \<and>
       sent_messages d' = sent_messages d @ [(message_bytes f, rq_fds r)])"
proof -
  let ?d1 = "adopt_child d a c"
  obtain d2 where ok: "CheckProxy d (Some a) = None" and s: "request_send d r args vals = (None, d2)"
      and d': "d' = d2\<lparr>d_sentClosed := d_sentClosed d2 @ rq_fds r\<rparr>"
    using assms(1,2) by (cases rule: request_cases [of d r args vals typed]) auto
  have base: "request_base d r = ?d1" using assms(2,3) by (simp add: request_base_def)
  have nc: "\<not> cx_closed (d_context d)" using ok by (simp add: CheckProxy_None)
  note ch = adopt_child_ok [OF assms(6,7) nc assms(5)]
  obtain f k where f: "wf_frame f" "f_object f = pid ?d1 a" "f_opcode f = ucast (rq_opcode r)"
      "sent_messages d2 = sent_messages ?d1 @ [(message_bytes f, rq_fds r)]"
    and chk: "CheckProxy ?d1 (Some a) = None" "d2 = (snd (run_check (request_check r) (Some a) ?d1))\<lparr>d_conn := k\<rparr>"
    using s assms(2)
    by (cases rule: sendChecked_outcome [of "Some a" ?d1 "rq_opcode r" "rq_fds r" "request_check r" args vals])
       (auto simp: base)
  have ne: "pid ?d1 a \<noteq> i" using chk(1) ch(2) [of a i] assms(4) by (auto simp: CheckProxy_None)
  have "d_heap d2 = d_heap ?d1 \<and> proxyAt d2 i = Some c \<and> objectAt d2 i = Some (ProxyObj c)"
    using ne ch(2,3) claimDestroy_ok [OF chk(1)] by (simp add: chk(2))
  moreover have "d_sentClosed d2 = d_sentClosed d"
    using sendChecked_sentClosed [of ?d1 "rq_proxy r" "rq_opcode r" "rq_fds r" "request_check r" args vals] s base
    by (metis adopt_child_frame(1) snd_conv)
  ultimately show ?thesis
    using d' f ch(1,4,5) assms(4) by (auto simp: sent_messages_def)
qed

text \<open>
  C18: a request that fails never closes the caller's descriptors, either changed nothing at
  all or leaves its child unregistered in both tables, and has not written a message that
  the peer could act upon on a connection that is still open.
\<close>

theorem request_failure_undone:
  assumes "request d r args vals typed = (Some err, d')"
  shows "d_sentClosed d' = d_sentClosed d \<and>
    (d' = d \<or> (case rq_child r of None \<Rightarrow> True
       | Some c \<Rightarrow> objectAt d' (pid d' c) \<noteq> Some (ProxyObj c) \<and> proxyAt d' (pid d' c) \<noteq> Some c)) \<and>
    (d_conn d' = d_conn d \<or> cn_closed (d_conn d'))"
proof (cases rule: request_cases [of d r args vals typed])
  case (failed e d2)
  have d': "d' = (case rq_child r of None \<Rightarrow> d2 | Some c \<Rightarrow> Unregister d2 (Some c))" using failed assms by simp
  let ?S = "sendChecked (request_base d r) (rq_proxy r) (rq_opcode r) (rq_fds r) (request_check r) args vals"
  have "d_sentClosed d2 = d_sentClosed d" using sendChecked_sentClosed [of "request_base d r"] failed(1)
    by (metis request_base_frame(1) snd_conv)
  moreover have "d_conn d2 = d_conn d \<or> cn_closed (d_conn d2)"
    by (cases rule: sendChecked_outcome [of "rq_proxy r" "request_base d r" "rq_opcode r" "rq_fds r" "request_check r" args vals])
       (use failed(1) in auto)
  ultimately show ?thesis using d' Unregister_gone [of d2] by (simp split: option.splits)
qed (use assms in auto)

text \<open>
  The checks of a request come first. A descriptor count that does not match the typed
  arguments, a proxy that is not registered on this context, or a bound version
  below the one that introduced the request makes it fail with the state unchanged:
  no ID is allocated, no child registered, nothing written.
\<close>

lemma request_checks_first:
  assumes "(typed \<and> length (filter (\<lambda>v. arg_kind v = argFD) vals) \<noteq> length (rq_fds r)) \<or>
    CheckProxy d (rq_proxy r) \<noteq> None \<or>
    (\<exists>a. rq_proxy r = Some a \<and> p_hasVersion (d_heap d a) \<and> p_version (d_heap d a) \<noteq> 0 \<and>
       p_version (d_heap d a) < rq_since r)"
  shows "\<exists>err. request d r args vals typed = (Some err, d)"
proof (cases "CheckProxy d (rq_proxy r)")
  case (Some err)
  then show ?thesis using request_refused by simp
next
  case None
  then show ?thesis using assms by (auto simp: request_def CheckVersion_def)
qed

text \<open>Concrete requests on the display with one proxy.\<close>

definition plain_request :: Request where
  "plain_request = \<lparr>rq_proxy = Some 0, rq_opcode = 4, rq_name = ''wl_test.create'', rq_since = 1,
     rq_destructor = False, rq_child = Some 1, rq_fds = [8]\<rparr>"

text \<open>Rules that evaluate a request on a concrete display.\<close>

lemmas display_eval = one_proxy_display_eq fresh_display_def idle_conn_def BaseProxy_def CheckProxy_def
  CheckVersion_def allocateID_def SetID_def SetVersion_def Register_def Unregister_def Let_def

lemmas request_eval = request_def plain_request_def Arg_defs adopt_child_def sendChecked_def sendRequest_def
  sendmsgWithFDs_def encodeRequest_def marshalValue_def putUint32_def conn_Write_def HeaderSize_def

lemma one_proxy_request:
  "fst (request one_proxy_display plain_request [] [ArgObject (Some (ProxyObj 1)), ArgFD] True) = None"
  by (simp add: display_eval request_eval)

theorem request_child_registered_witness:
  "objectAt (snd (request one_proxy_display plain_request [] [ArgObject (Some (ProxyObj 1)), ArgFD] True)) 4 =
     Some (ProxyObj 1)"
  using request_child_registered [of one_proxy_display plain_request "[]" "[ArgObject (Some (ProxyObj 1)), ArgFD]"
      True "snd (request one_proxy_display plain_request [] [ArgObject (Some (ProxyObj 1)), ArgFD] True)"
      0 1 4 "snd (allocateID one_proxy_display)"] one_proxy_request
  by (simp add: prod_eq_iff) (simp add: plain_request_def display_eval)

theorem request_failure_undone_witness:
  "d_sentClosed (snd (request one_proxy_display (plain_request\<lparr>rq_fds := []\<rparr>) [GOther ''bool''] [] False)) = []"
proof -
  let ?r = "request one_proxy_display (plain_request\<lparr>rq_fds := []\<rparr>) [GOther ''bool''] [] False"
  have "\<exists>err. fst ?r = Some err" by (simp add: display_eval request_eval)
  then obtain err where "?r = (Some err, snd ?r)" by (metis prod.collapse)
  then show ?thesis using request_failure_undone [of one_proxy_display "plain_request\<lparr>rq_fds := []\<rparr>" "[GOther ''bool'']" "[]" False err "snd ?r"]
    by (simp add: display_eval)
qed

text \<open>
  C40: when the IDs are exhausted \<^verbatim>\<open>Sync\<close> does not fail. It returns a callback with ID 0,
  which is in no table, and sends a sync request whose new object is 0.
\<close>

theorem Sync_exhausted:
  assumes "\<not> d_closed d" "\<not> cn_closed (d_conn d)" "cn_wres (d_conn d) = []"
    and "d_freeIDs d = []" "0xff000000 \<le> d_nextID d"
  shows "\<exists>d'. Sync d = (Inr (d_brk d), d') \<and> pid d' (d_brk d) = 0 \<and> d_objects d' = d_objects d \<and>
    sent_messages d' = sent_messages d @
      [(message_bytes \<lparr>f_object = displayObjectID, f_opcode = 0, f_body = le32 0\<rparr>, [])]"
proof -
  have a: "allocateID d = (0, d)" using assms(4,5) by (simp add: allocateID_def)
  have "encodeRequest idOf 1 0 [GUint32 0] [] =
      Inr (message_bytes \<lparr>f_object = displayObjectID, f_opcode = 0, f_body = le32 0\<rparr>)" for idOf
    by (simp add: encodeRequest_Inr goval_wire_def HeaderSize_def displayObjectID_def)
  then show ?thesis
    using assms by (simp add: Sync_def a Register_def callbackObject_def BaseProxy_def op_defs Let_def
        sendmsgWithFDs_def conn_Write_def sent_messages_def)
qed

theorem Sync_exhausted_witness:
  "\<exists>d'. Sync (fresh_display\<lparr>d_nextID := 0xff000000\<rparr>) = (Inr (d_brk (fresh_display\<lparr>d_nextID := 0xff000000\<rparr>)), d') \<and>
     pid d' (d_brk (fresh_display\<lparr>d_nextID := 0xff000000\<rparr>)) = 0 \<and>
     d_objects d' = d_objects (fresh_display\<lparr>d_nextID := 0xff000000\<rparr>) \<and>
     sent_messages d' = sent_messages (fresh_display\<lparr>d_nextID := 0xff000000\<rparr>) @
      [(message_bytes \<lparr>f_object = displayObjectID, f_opcode = 0, f_body = le32 0\<rparr>, [])]"
  by (rule Sync_exhausted) (simp_all add: fresh_display_def idle_conn_def)

end
