(* ===== verification/Registry.thy ===== *)
theory Registry
  imports Requests
begin

text \<open>
  The bootstrap registry of \<^verbatim>\<open>client.go\<close> and \<^verbatim>\<open>core.go\<close>: handler registration, lookup
  of globals, and binding (\<^verbatim>\<open>Bind\<close>, \<^verbatim>\<open>BindNegotiated\<close>, \<^verbatim>\<open>BindID\<close>). Go iterates a map in an
  unspecified order, so \<^verbatim>\<open>FindGlobal\<close> takes the order \<open>ord\<close> of this iteration as an argument; a list
  is an iteration of the globals when it enumerates their names. The lemmas say
  what a lookup finds whatever the order, and what a bind sends and registers.
\<close>

section \<open>Handlers\<close>

definition Registry_EventSignature :: "u16 \<Rightarrow> string option" where
  "Registry_EventSignature opcode =
     (if opcode = 0 then Some ''uint,string,uint,'' else if opcode = 1 then Some ''uint,'' else None)"

definition AddHandler :: "display \<Rightarrow> string \<Rightarrow> globalHandler option \<Rightarrow> display" where
  "AddHandler d iface handler =
     (case handler of
        None \<Rightarrow> d
      | Some h \<Rightarrow>
          d\<lparr>d_registry := (d_registry d)\<lparr>r_handlers :=
              (r_handlers (d_registry d))(iface := r_handlers (d_registry d) iface @ [h])\<rparr>\<rparr>)"

definition AddGlobalHandler :: "display \<Rightarrow> nat option \<Rightarrow> display" where
  "AddGlobalHandler d handler =
     (case handler of None \<Rightarrow> d | Some k \<Rightarrow> AddHandler d ''*'' (Some (WrappedHandler k)))"

definition AddGlobalRemoveHandler :: "display \<Rightarrow> nat option \<Rightarrow> display" where
  "AddGlobalRemoveHandler d handler =
     (case handler of
        None \<Rightarrow> d
      | Some k \<Rightarrow>
          d\<lparr>d_registry := (d_registry d)\<lparr>r_removeHandlers := r_removeHandlers (d_registry d) @ [k]\<rparr>\<rparr>)"

section \<open>Lookup\<close>

abbreviation globals :: "display \<Rightarrow> u32 \<rightharpoonup> Global" where
  "globals d \<equiv> r_globals (d_registry d)"

definition iteration :: "u32 list \<Rightarrow> display \<Rightarrow> bool" where
  "iteration ord d \<longleftrightarrow> distinct ord \<and> set ord = dom (globals d)"

text \<open>\<^verbatim>\<open>GetGlobals\<close> copies the map, so the caller's copy does not change with the registry.\<close>

definition GetGlobals :: "display \<Rightarrow> u32 \<rightharpoonup> Global" where
  "GetGlobals d = globals d"

fun FindGlobal :: "u32 list \<Rightarrow> display \<Rightarrow> string \<Rightarrow> Global option" where
  "FindGlobal [] d iface = None"
| "FindGlobal (k # ord) d iface =
     (case globals d k of
        Some g \<Rightarrow> if g_interface g = iface then Some g else FindGlobal ord d iface
      | None \<Rightarrow> FindGlobal ord d iface)"

definition FindGlobalByName :: "display \<Rightarrow> u32 \<Rightarrow> Global option" where
  "FindGlobalByName d name = globals d name"

section \<open>Binding\<close>

text \<open>The first two steps of \<^verbatim>\<open>Bind\<close>: an ID and the context for a proxy that lacks them.\<close>

definition bind_prepare :: "display \<Rightarrow> addr \<Rightarrow> error option \<times> display" where
  "bind_prepare d a =
     (let d1 = (if pid d a = 0 then let (ident, d') = allocateID d in SetID d' a ident else d)
      in if proxyContext d1 a = None then
           if p_class (d_heap d1 a) = BaseClass then (None, SetContext d1 a (Some (cx_ref (d_context d1))))
           else if p_hasSetContext (d_heap d1 a) then (None, SetContext d1 a (Some (cx_ref (d_context d1))))
           else (Some (Errorf ''proxy doesn't have context and can't set it''), d1)
         else (None, d1))"

definition Bind :: "display \<Rightarrow> u32 \<Rightarrow> string \<Rightarrow> u32 \<Rightarrow> addr \<Rightarrow> error option \<times> display" where
  "Bind d name iface version a =
     (case bind_prepare d a of
        (Some err, d1) \<Rightarrow> (Some err, d1)
      | (None, d1) \<Rightarrow>
          if proxyContext d1 a \<noteq> Some (cx_ref (d_context d1))
          then (Some (Errorf ''proxy belongs to another display''), d1)
          else if pid d1 a = displayObjectID \<or> pid d1 a = Registry_ID d1
          then (Some (Errorf ''reserved object ID''), d1)
          else if objectAt d1 (pid d1 a) \<noteq> None \<and> objectAt d1 (pid d1 a) \<noteq> Some (ProxyObj a)
          then (Some (Errorf (''object ID '' @ digits (unat (pid d1 a)) @ '' already registered'')), d1)
          else
            let d2 = (if p_hasSetVersion (d_heap d1 a) then SetVersion d1 a version else d1);
                d3 = Register d2 (Some a)
            in case Display_SendRequest d3 (Registry_ID d3) 0
                      [GUint32 name, GString iface, GUint32 version, GUint32 (pid d3 a)] of
                 (Some err, d4) \<Rightarrow> (Some err, Unregister d4 (Some a))
               | (None, d4) \<Rightarrow> (None, d4))"

definition BindNegotiated :: "u32 list \<Rightarrow> display \<Rightarrow> string \<Rightarrow> u32 \<Rightarrow> addr \<Rightarrow> u32 result \<times> display" where
  "BindNegotiated ord d iface supported a =
     (if supported = 0 then (Inl (Errorf (''wlturbo: supported version for '' @ iface @ '' must be at least 1'')), d)
      else case FindGlobal ord d iface of
             None \<Rightarrow> (Inl (Wrap [] ErrGlobalNotFound ('': '' @ iface)), d)
           | Some g \<Rightarrow>
               if g_version g = 0 then (Inl (Wrap [] ErrGlobalNotFound ('': '' @ iface)), d)
               else let version = min (g_version g) supported
                    in case Bind d (g_name g) iface version a of
                         (Some err, d1) \<Rightarrow> (Inl err, d1)
                       | (None, d1) \<Rightarrow> (Inr version, d1))"

definition BindID :: "display \<Rightarrow> u32 \<Rightarrow> string \<Rightarrow> u32 \<Rightarrow> u32 result \<times> display" where
  "BindID d name iface version =
     (let (newID, d1) = allocateID d
      in case Display_SendRequest d1 (Registry_ID d1) 0
                [GUint32 name, GString iface, GUint32 version, GUint32 newID] of
           (Some err, d2) \<Rightarrow> (Inl err, d2)
         | (None, d2) \<Rightarrow> (Inr newID, d2))"

section \<open>What lookups find\<close>

lemma FindGlobal_Some:
  "FindGlobal ord d iface = Some g \<Longrightarrow> \<exists>k \<in> set ord. globals d k = Some g \<and> g_interface g = iface"
  by (induction ord) (auto split: option.splits if_splits)

lemma FindGlobal_None:
  "FindGlobal ord d iface = None \<longleftrightarrow> (\<forall>k \<in> set ord. \<forall>g. globals d k = Some g \<longrightarrow> g_interface g \<noteq> iface)"
  by (induction ord) (auto split: option.splits)

lemma FindGlobal_iteration:
  assumes "iteration ord d"
  shows "(\<exists>g. FindGlobal ord d iface = Some g) \<longleftrightarrow> (\<exists>k g. globals d k = Some g \<and> g_interface g = iface)"
  using assms FindGlobal_None [of ord d iface] FindGlobal_Some [of ord d iface]
  by (auto simp: iteration_def dom_def)

section \<open>Invariants\<close>

context request_invariant
begin

lemma bind_prepare: "I d \<Longrightarrow> I (snd (bind_prepare d a))"
  by (simp add: bind_prepare_def Let_def case_prod_beta SetContext SetID allocateID)

lemma Bind: "I d \<Longrightarrow> I (snd (Bind d name iface version a))"
proof -
  assume "I d"
  then have "I (snd (bind_prepare d a))" by (rule bind_prepare)
  moreover obtain e d1 where "bind_prepare d a = (e, d1)" by (cases "bind_prepare d a")
  ultimately have p: "bind_prepare d a = (e, d1)" "I d1" by simp_all
  then show ?thesis
    by (simp add: Bind_def Let_def case_prod_beta Unregister Display_SendRequest Register SetVersion
        split: option.splits)
qed

lemma BindNegotiated: "I d \<Longrightarrow> I (snd (BindNegotiated ord d iface supported a))"
  using Bind by (auto simp: BindNegotiated_def Let_def case_prod_beta split: option.splits)

lemma BindID: "I d \<Longrightarrow> I (snd (BindID d name iface version))"
  using Display_SendRequest [OF allocateID]
  by (auto simp: BindID_def Let_def case_prod_beta split: option.splits)

end

section \<open>What a bind does\<close>

lemma Display_SendRequest_sent:
  assumes "Display_SendRequest d ob oc args = (None, d')"
  obtains f c where "wf_frame f" "f_object f = ob" "f_opcode f = oc" "body_wire (objID d) args = Some (f_body f)"
    "d' = d\<lparr>d_conn := c\<rparr>" "sent_messages d' = sent_messages d @ [(message_bytes f, [])]"
proof -
  have s: "sendRequest d ob oc [] None args [] = (None, d')" using assms by (simp add: op_defs)
  then obtain data where e: "encodeRequest (objID d) ob oc args [] = Inr data" "sendmsgWithFDs d data [] None = (None, d')"
    by (cases rule: sendRequest_cases [of d ob oc args "[]" "[]" None]) auto
  obtain f where f: "wf_frame f" "data = message_bytes f" "f_object f = ob" "f_opcode f = oc"
      "body_wire (objID d) args = Some (f_body f)"
    using encodeRequest_wf [OF e(1)] by auto
  have "(\<exists>c. d' = d\<lparr>d_conn := c\<rparr>) \<and> sent_messages d' = sent_messages d @ [(data, [])]"
    by (cases rule: sendmsg_outcome [of None d data "[]"]) (use e(2) in \<open>auto simp: run_guard_def\<close>)
  then show thesis using that f by auto
qed

lemma bind_prepare_frame:
  assumes "bind_prepare d a = (e, d1)"
  shows "sent_messages d1 = sent_messages d" "d_registry d1 = d_registry d" "d_context d1 = d_context d"
  using assms
  by (auto simp: bind_prepare_def Let_def case_prod_beta SetID_def SetContext_def allocateID_def sent_messages_def
      split: if_splits)

lemma body_wire_ids:
  "body_wire i [GUint32 n, GString t, GUint32 v, GUint32 k] = body_wire j [GUint32 n, GString t, GUint32 v, GUint32 k]"
  by (simp add: goval_wire_def)

lemma Bind_ok:
  assumes "Bind d name iface version a = (None, d')" "\<not> cx_closed (d_context d)" "pid d' a \<noteq> 0"
  obtains f where "objectAt d' (pid d' a) = Some (ProxyObj a)" "proxyAt d' (pid d' a) = Some a"
    "wf_frame f" "f_object f = r_id (d_registry d)" "f_opcode f = 0"
    "body_wire (objID d') [GUint32 name, GString iface, GUint32 version, GUint32 (pid d' a)] = Some (f_body f)"
    "sent_messages d' = sent_messages d @ [(message_bytes f, [])]"
    "p_hasSetVersion (d_heap d' a) \<Longrightarrow> p_version (d_heap d' a) = version"
proof -
  obtain e d1 where p: "bind_prepare d a = (e, d1)" by (cases "bind_prepare d a")
  note fr = bind_prepare_frame [OF p]
  let ?d2 = "if p_hasSetVersion (d_heap d1 a) then SetVersion d1 a version else d1"
  let ?d3 = "Register ?d2 (Some a)"
  have ok: "e = None" "p_context (d_heap d1 a) = Some (cx_ref (d_context d1))"
    and s: "Display_SendRequest ?d3 (r_id (d_registry ?d3)) 0
        [GUint32 name, GString iface, GUint32 version, GUint32 (pid ?d3 a)] = (None, d')"
    using assms(1) p by (auto simp: Bind_def Let_def split: option.splits if_splits prod.splits)
  have d3: "d_registry ?d3 = d_registry d" "sent_messages ?d3 = sent_messages d" "d_heap ?d3 = d_heap ?d2"
      "d_context ?d2 = d_context d" "p_context (d_heap ?d2 a) = Some (cx_ref (d_context d))"
      "p_hasSetVersion (d_heap ?d2 a) \<Longrightarrow> p_version (d_heap ?d2 a) = version"
    using fr ok by (auto simp: Register_def SetVersion_def sent_messages_def)
  obtain f c where f: "wf_frame f" "f_object f = r_id (d_registry ?d3)" "f_opcode f = 0"
      "body_wire (objID ?d3) [GUint32 name, GString iface, GUint32 version, GUint32 (pid ?d3 a)] = Some (f_body f)"
      "d' = ?d3\<lparr>d_conn := c\<rparr>" "sent_messages d' = sent_messages ?d3 @ [(message_bytes f, [])]"
    by (rule Display_SendRequest_sent [OF s])
  have h: "d_heap d' = d_heap ?d2" using f(5) d3(3) by simp
  have reg: "objectAt ?d3 (pid ?d2 a) = Some (ProxyObj a)" "proxyAt ?d3 (pid ?d2 a) = Some a"
    using assms(2,3) d3(4,5) h by (simp_all add: Register_def)
  have "body_wire (objID d') [GUint32 name, GString iface, GUint32 version, GUint32 (pid d' a)] = Some (f_body f)"
    using f(4) body_wire_ids [of "objID ?d3" name iface version "pid ?d3 a" "objID d'"] d3(3) h
    by (simp del: body_wire.simps)
  then show thesis
    by (intro that [of f]) (use f d3 h reg in simp_all)
qed

section \<open>Properties\<close>

text \<open>A display that knows two globals, and one order in which Go may iterate them.\<close>

definition announced :: display where
  "announced = fresh_display\<lparr>d_registry := (d_registry fresh_display)\<lparr>r_globals :=
     [1 \<mapsto> \<lparr>g_name = 1, g_interface = ''wl_shm'', g_version = 1\<rparr>,
      7 \<mapsto> \<lparr>g_name = 7, g_interface = ''wl_seat'', g_version = 9\<rparr>]\<rparr>\<rparr>"

lemma announced_iteration: "iteration [7, 1] announced"
  by (auto simp: iteration_def announced_def)

text \<open>
  C32: a negotiated bind that succeeds binds an announced global of the interface at
  the minimum of the announced and the supported version, which is at least 1. It
  has registered the proxy in both tables under its ID and written one bind
  request with the global's name, the interface, this version and this ID.
\<close>

theorem BindNegotiated_negotiates:
  assumes "BindNegotiated ord d iface supported a = (Inr v, d')" "\<not> cx_closed (d_context d)" "pid d' a \<noteq> 0"
  shows "\<exists>g k f. FindGlobalByName d k = Some g \<and> g_interface g = iface \<and> v = min (g_version g) supported \<and> v \<noteq> 0 \<and>
    objectAt d' (pid d' a) = Some (ProxyObj a) \<and> proxyAt d' (pid d' a) = Some a \<and>
    (if p_hasSetVersion (d_heap d' a) then p_version (d_heap d' a) = v else True) \<and>
    f_object f = r_id (d_registry d) \<and> f_opcode f = 0 \<and>
    body_wire (objID d') [GUint32 (g_name g), GString iface, GUint32 v, GUint32 (pid d' a)] = Some (f_body f) \<and>
    sent_messages d' = sent_messages d @ [(message_bytes f, [])]"
proof -
  obtain g where g: "FindGlobal ord d iface = Some g" "g_version g \<noteq> 0" "supported \<noteq> 0"
    and b: "Bind d (g_name g) iface (min (g_version g) supported) a = (None, d')" "v = min (g_version g) supported"
    using assms(1) by (auto simp: BindNegotiated_def Let_def split: if_splits option.splits prod.splits)
  obtain k where k: "globals d k = Some g" "g_interface g = iface" using FindGlobal_Some [OF g(1)] by auto
  have "v \<noteq> 0" using g b(2) by (simp add: min_def)
  moreover obtain f where "objectAt d' (pid d' a) = Some (ProxyObj a)" "proxyAt d' (pid d' a) = Some a"
    "wf_frame f" "f_object f = r_id (d_registry d)" "f_opcode f = 0"
    "body_wire (objID d') [GUint32 (g_name g), GString iface, GUint32 v, GUint32 (pid d' a)] = Some (f_body f)"
    "sent_messages d' = sent_messages d @ [(message_bytes f, [])]"
    "p_hasSetVersion (d_heap d' a) \<Longrightarrow> p_version (d_heap d' a) = v"
    by (rule Bind_ok [OF b(1) assms(2,3), folded b(2)]) metis
  ultimately show ?thesis
    using k b(2) by (intro exI [of _ g] exI [of _ k] exI [of _ f]) (simp add: FindGlobalByName_def)
qed

definition bound :: "u32 result \<times> display" where
  "bound = BindNegotiated [7, 1] announced ''wl_seat'' 5 0"

lemma bound_ok: "fst bound = Inr 5" "pid (snd bound) 0 = 3" "\<not> cx_closed (d_context announced)"
proof -
  have "objectAt announced 3 = None" by (simp add: announced_def fresh_display_def)
  then show "fst bound = Inr 5" "pid (snd bound) 0 = 3" "\<not> cx_closed (d_context announced)"
    by (simp_all add: bound_def BindNegotiated_def Bind_def bind_prepare_def announced_def fresh_display_def
      idle_conn_def allocateID_def SetID_def SetContext_def BaseProxy_def displayObjectID_def Let_def
      SetVersion_def Register_def op_defs encodeRequest_def putUint32_def putString_def HeaderSize_def
      sendmsgWithFDs_def conn_Write_def)
qed

theorem BindNegotiated_negotiates_witness:
  "fst bound = Inr 5 \<and> objectAt (snd bound) 3 = Some (ProxyObj 0)"
  using BindNegotiated_negotiates [of "[7, 1]" announced "''wl_seat''" 5 0 5 "snd bound"] bound_ok
  by (auto simp: prod_eq_iff simp flip: bound_def)

end
