(* ===== verification/Control.thy ===== *)
theory Control
  imports Wire
begin

text \<open>
  The parser of socket control messages of \<^verbatim>\<open>scm_linux.go\<close>: \<^verbatim>\<open>parseFDs\<close> and
  \<^verbatim>\<open>readControlHeader\<close>. A Linux \<^verbatim>\<open>cmsghdr\<close> is a native-endian (little-endian here) 64-bit length
  followed by two 32-bit integers. What the source takes from
  \<^verbatim>\<open>golang.org/x/sys/unix\<close> is the record \<open>unix_pkg\<close>: the function \<^verbatim>\<open>CmsgSpace\<close> and
  the two constants that mark descriptor messages; nothing is assumed about them in
  the definitions. The loop may not end for a \<^verbatim>\<open>CmsgSpace\<close> that returns 0, so the
  model has fuel; with a \<^verbatim>\<open>CmsgSpace\<close> that covers at least the header, the length
  of the buffer is enough fuel.

  The lemmas show that the parser returns every descriptor of a well-formed
  sequence of control messages, in order, that a malformed later message does
  not lose the descriptors decoded before it, and that a descriptor message with a partial
  descriptor makes it panic.
\<close>

record unix_pkg =
  CmsgSpace :: "nat \<Rightarrow> nat"
  SOL_SOCKET :: int
  SCM_RIGHTS :: int

definition SizeofCmsghdr :: nat where
  "SizeofCmsghdr = 16"

record Cmsghdr =
  h_len :: u64
  h_level :: u32
  h_type :: u32

section \<open>Headers and descriptors\<close>

definition u64le :: "bytes \<Rightarrow> u64" where
  "u64le b = ucast (u32le (take 4 b)) OR push_bit 32 (ucast (u32le (take 4 (drop 4 b))))"

definition le64 :: "u64 \<Rightarrow> bytes" where
  "le64 w = le32 (ucast w) @ le32 (ucast (drop_bit 32 w))"

definition readControlHeader :: "bytes \<Rightarrow> Cmsghdr result" where
  "readControlHeader data =
     (if length data < SizeofCmsghdr then Inl (Errorf ''short control header'')
      else Inr \<lparr>h_len = u64le (take 8 data), h_level = u32le (take 4 (drop 8 data)),
                h_type = u32le (take 4 (drop 12 data))\<rparr>)"

text \<open>
  \<^verbatim>\<open>syscall.ParseUnixRights\<close> on a message of the right level and type: one 32-bit
  signed integer per four bytes of data. The result has a quarter of the length of the data,
  rounded down, and the loop runs to the end of the data: a remainder of one to three bytes is stored
  behind the end of the result, which panics (\<open>None\<close>).
\<close>

fun ParseUnixRights :: "bytes \<Rightarrow> fd list option" where
  "ParseUnixRights [] = Some []"
| "ParseUnixRights (a # b # c # d # rest) = map_option ((#) (sint (u32le [a, b, c, d]))) (ParseUnixRights rest)"
| "ParseUnixRights _ = None"

lemma ParseUnixRights_panics: "ParseUnixRights b = None \<longleftrightarrow> length b mod 4 \<noteq> 0"
  by (induction b rule: ParseUnixRights.induct) auto

section \<open>The loop\<close>

text \<open>
  The descriptors collected so far are returned with every error. \<^verbatim>\<open>int(hdr.Len)\<close>
  reads the length as a signed number.
\<close>

datatype parsed = OutOfFuel | Panicked | Parsed "fd list" "error option"

fun parse_loop :: "unix_pkg \<Rightarrow> nat \<Rightarrow> bytes \<Rightarrow> fd list \<Rightarrow> parsed" where
  "parse_loop U 0 oob fds = OutOfFuel"
| "parse_loop U (Suc fuel) oob fds =
     (if oob = [] then Parsed fds None
      else if length oob < SizeofCmsghdr then Parsed fds (Some (Errorf ''short control header''))
      else case readControlHeader oob of
        Inl err \<Rightarrow> Parsed fds (Some err)
      | Inr hdr \<Rightarrow>
          let len = sint (h_len hdr)
          in if len < int SizeofCmsghdr \<or> len > int (length oob)
             then Parsed fds (Some (Errorf (''invalid control length '' @ fmt_d len)))
             else
               let n = nat len;
                   step = CmsgSpace U (n - SizeofCmsghdr)
               in case (if sint (h_level hdr) = SOL_SOCKET U \<and> sint (h_type hdr) = SCM_RIGHTS U
                        then ParseUnixRights (drop SizeofCmsghdr (take n oob)) else Some []) of
                    None \<Rightarrow> Panicked
                  | Some parsed \<Rightarrow>
                      if step > length oob then Parsed (fds @ parsed) None
                      else parse_loop U fuel (drop step oob) (fds @ parsed))"

text \<open>\<open>None\<close> is a call that does not return: it panics, or the fuel did not suffice.\<close>

definition parseFDs :: "unix_pkg \<Rightarrow> bytes \<Rightarrow> (fd list \<times> error option) option" where
  "parseFDs U oob =
     (case parse_loop U (Suc (length oob)) oob [] of Parsed fds err \<Rightarrow> Some (fds, err) | _ \<Rightarrow> None)"

section \<open>Fuel\<close>

text \<open>What the documentation of \<^verbatim>\<open>CmsgSpace\<close> promises: a message occupies its header and its data.\<close>

definition cmsg_space_ok :: "unix_pkg \<Rightarrow> bool" where
  "cmsg_space_ok U \<longleftrightarrow> (\<forall>n. SizeofCmsghdr + n \<le> CmsgSpace U n)"

lemma parse_loop_total:
  assumes "cmsg_space_ok U"
  shows "length oob < fuel \<Longrightarrow> parse_loop U fuel oob fds \<noteq> OutOfFuel"
proof (induction fuel arbitrary: oob fds)
  case (Suc fuel)
  have "length (drop (CmsgSpace U k) oob) < fuel" if "oob \<noteq> []" for k
  proof -
    have "SizeofCmsghdr + k \<le> CmsgSpace U k" using assms by (simp add: cmsg_space_ok_def)
    then have "0 < CmsgSpace U k" by (simp add: SizeofCmsghdr_def)
    then show ?thesis using Suc.prems that by (cases oob) auto
  qed
  then show ?case using Suc.IH by (auto simp: Let_def readControlHeader_def split: option.splits)
qed simp

text \<open>A descriptor message at the front of the buffer whose data is not a whole number of descriptors.\<close>

definition partial_rights :: "unix_pkg \<Rightarrow> bytes \<Rightarrow> bool" where
  "partial_rights U oob \<longleftrightarrow>
     (case readControlHeader oob of
        Inl _ \<Rightarrow> False
      | Inr hdr \<Rightarrow>
          int SizeofCmsghdr \<le> sint (h_len hdr) \<and> sint (h_len hdr) \<le> int (length oob) \<and>
          sint (h_level hdr) = SOL_SOCKET U \<and> sint (h_type hdr) = SCM_RIGHTS U \<and>
          (nat (sint (h_len hdr)) - SizeofCmsghdr) mod 4 \<noteq> 0)"

lemma parse_loop_partial: "partial_rights U oob \<Longrightarrow> parse_loop U (Suc fuel) oob fds = Panicked"
proof (cases "readControlHeader oob")
  case (Inr hdr)
  assume p: "partial_rights U oob"
  let ?n = "nat (sint (h_len hdr))"
  have "?n \<le> length oob" using p Inr by (simp add: partial_rights_def nat_le_iff)
  then have "length (drop SizeofCmsghdr (take ?n oob)) = ?n - SizeofCmsghdr" by simp
  then have "ParseUnixRights (drop SizeofCmsghdr (take ?n oob)) = None"
    using p Inr by (simp add: partial_rights_def ParseUnixRights_panics)
  moreover have "SizeofCmsghdr \<le> length oob" using Inr by (auto simp: readControlHeader_def split: if_splits)
  ultimately show ?thesis using p Inr by (auto simp: partial_rights_def SizeofCmsghdr_def Let_def)
qed (simp add: partial_rights_def)

lemma parse_loop_panics: "parse_loop U fuel oob fds = Panicked \<Longrightarrow> \<exists>k. partial_rights U (drop k oob)"
proof (induction fuel arbitrary: oob fds)
  case (Suc fuel)
  show ?case
  proof (cases "partial_rights U oob")
    case False
    then obtain k fds' where "parse_loop U fuel (drop k oob) fds' = Panicked"
      using Suc.prems
      by (auto simp: partial_rights_def readControlHeader_def Let_def ParseUnixRights_panics
          split: if_splits option.splits)
    then show ?thesis using Suc.IH by fastforce
  qed (auto intro: exI [of _ 0])
qed simp

section \<open>Well-formed control data\<close>

text \<open>
  A control message and its bytes: header, data, and the padding that fills it
  up to \<^verbatim>\<open>CmsgSpace\<close>.
\<close>

record cmsg =
  cm_level :: u32
  cm_type :: u32
  cm_data :: bytes

definition cmsg_bytes :: "unix_pkg \<Rightarrow> cmsg \<Rightarrow> bytes" where
  "cmsg_bytes U c =
     le64 (word_of_nat (SizeofCmsghdr + length (cm_data c))) @ le32 (cm_level c) @ le32 (cm_type c) @
     cm_data c @ replicate (CmsgSpace U (length (cm_data c)) - SizeofCmsghdr - length (cm_data c)) 0"

definition fd_bytes :: "fd list \<Rightarrow> bytes" where
  "fd_bytes fds = concat (map (\<lambda>n. le32 (word_of_int n)) fds)"

definition cmsg_fds :: "unix_pkg \<Rightarrow> cmsg \<Rightarrow> fd list" where
  "cmsg_fds U c =
     (if sint (cm_level c) = SOL_SOCKET U \<and> sint (cm_type c) = SCM_RIGHTS U
      then (case ParseUnixRights (cm_data c) of Some fds \<Rightarrow> fds | None \<Rightarrow> []) else [])"

text \<open>A message whose length fits its header, with a whole number of descriptors if it carries any.\<close>

definition cmsg_ok :: "unix_pkg \<Rightarrow> cmsg \<Rightarrow> bool" where
  "cmsg_ok U c \<longleftrightarrow> length (cm_data c) < 2 ^ 32 \<and>
     (if sint (cm_level c) = SOL_SOCKET U \<and> sint (cm_type c) = SCM_RIGHTS U then length (cm_data c) mod 4 = 0 else True)"

lemma length_le64 [simp]: "length (le64 w) = 8"
  by (simp add: le64_def)

lemma u64le_le64 [simp]: "u64le (le64 w) = w"
proof (rule bit_word_eqI)
  fix n assume "n < LENGTH(64)"
  then show "bit (u64le (le64 w)) n \<longleftrightarrow> bit w n"
    by (cases "n < 32") (auto simp: u64le_def le64_def bit_simps)
qed

lemma ParseUnixRights_fd_bytes:
  "\<forall>n \<in> set fds. - (2 ^ 31) \<le> n \<and> n < 2 ^ 31 \<Longrightarrow> ParseUnixRights (fd_bytes fds) = Some fds"
proof (induction fds)
  case (Cons n fds)
  obtain a b c d where abcd: "le32 (word_of_int n) = [a, b, c, d]" by (simp add: le32_def)
  have "sint (word_of_int n :: u32) = n"
    using Cons.prems by (simp add: signed_of_int signed_take_bit_int_eq_self)
  moreover have "u32le [a, b, c, d] = word_of_int n"
    using u32le_le32_0 [of "word_of_int n"] by (simp only: abcd)
  ultimately show ?case using Cons by (simp add: fd_bytes_def abcd)
qed (simp add: fd_bytes_def)

lemma parse_loop_cmsg:
  assumes U: "cmsg_space_ok U" and c: "cmsg_ok U c"
  shows "parse_loop U (Suc fuel) (cmsg_bytes U c @ rest) fds = parse_loop U fuel rest (fds @ cmsg_fds U c)"
proof -
  have small: "length (cm_data c) < 2 ^ 32" using c by (simp add: cmsg_ok_def)
  have rights: "(if sint (cm_level c) = SOL_SOCKET U \<and> sint (cm_type c) = SCM_RIGHTS U
      then ParseUnixRights (cm_data c) else Some []) = Some (cmsg_fds U c)"
    using c ParseUnixRights_panics [of "cm_data c"] by (auto simp: cmsg_ok_def cmsg_fds_def)
  let ?n = "SizeofCmsghdr + length (cm_data c)"
  let ?oob = "cmsg_bytes U c @ rest"
  have le: "?n \<le> CmsgSpace U (length (cm_data c))" using U by (simp add: cmsg_space_ok_def)
  then have lc: "length (cmsg_bytes U c) = CmsgSpace U (length (cm_data c))"
    by (simp add: cmsg_bytes_def SizeofCmsghdr_def)
  have s: "sint (word_of_nat ?n :: u64) = int ?n"
    using small signed_take_bit_int_eq_self [of 63 "int ?n"]
    by (subst of_int_of_nat_eq [symmetric]) (simp add: signed_of_int SizeofCmsghdr_def del: of_int_of_nat_eq of_nat_add)
  have h: "readControlHeader ?oob = Inr \<lparr>h_len = word_of_nat ?n, h_level = cm_level c, h_type = cm_type c\<rparr>"
    by (simp add: readControlHeader_def SizeofCmsghdr_def cmsg_bytes_def)
  have dat: "drop SizeofCmsghdr (take ?n (cmsg_bytes U c)) = cm_data c"
    by (simp add: cmsg_bytes_def SizeofCmsghdr_def)
  have ne: "cmsg_bytes U c \<noteq> []" by (simp add: cmsg_bytes_def le64_def)
  show ?thesis
    using le ne rights
    by (cases "sint (cm_level c) = SOL_SOCKET U \<and> sint (cm_type c) = SCM_RIGHTS U")
       (auto simp: h s dat lc Let_def simp del: of_nat_add)
qed

lemma parse_loop_cmsgs:
  assumes "cmsg_space_ok U" "list_all (cmsg_ok U) cs"
  shows "parse_loop U (length cs + fuel) (concat (map (cmsg_bytes U) cs) @ rest) fds =
    parse_loop U fuel rest (fds @ concat (map (cmsg_fds U) cs))"
  using assms(2)
proof (induction cs arbitrary: fds)
  case (Cons c cs)
  then show ?case
    using parse_loop_cmsg [OF assms(1), of c "length cs + fuel"] by (simp del: parse_loop.simps)
qed simp

lemma parse_loop_prefix: "parse_loop U fuel oob fds = Parsed r e \<Longrightarrow> \<exists>more. r = fds @ more"
proof (induction fuel arbitrary: oob fds)
  case (Suc fuel)
  show ?case
  proof (cases "readControlHeader oob")
    case (Inl err)
    then show ?thesis using Suc.prems by (auto split: if_splits)
  next
    case (Inr hdr)
    then show ?thesis
      using Suc.prems Suc.IH by (auto simp: Let_def split: if_splits option.splits) (metis append.assoc)+
  qed
qed simp

lemma length_cmsgs:
  assumes "cmsg_space_ok U"
  shows "length cs \<le> length (concat (map (cmsg_bytes U) cs))"
proof (induction cs)
  case (Cons c cs)
  have "cmsg_bytes U c \<noteq> []" by (simp add: cmsg_bytes_def le64_def)
  then show ?case using Cons by (cases "cmsg_bytes U c") auto
qed simp

text \<open>What the whole buffer gives: the descriptors of the good messages, then the rest of the parse.\<close>

lemma parseFDs_split:
  assumes "cmsg_space_ok U" "list_all (cmsg_ok U) cs"
  defines "good \<equiv> concat (map (cmsg_bytes U) cs)"
  obtains fuel where "length rest < fuel"
    "parse_loop U (Suc (length (good @ rest))) (good @ rest) [] = parse_loop U fuel rest (concat (map (cmsg_fds U) cs))"
proof -
  let ?fuel = "Suc (length (good @ rest)) - length cs"
  have le: "length cs \<le> length good" using length_cmsgs [OF assms(1)] by (simp add: good_def)
  then have "length cs + ?fuel = Suc (length (good @ rest))" by simp
  then have "parse_loop U (Suc (length (good @ rest))) (good @ rest) [] = parse_loop U (length cs + ?fuel) (good @ rest) []"
    by (simp del: parse_loop.simps)
  then have "parse_loop U (Suc (length (good @ rest))) (good @ rest) [] = parse_loop U ?fuel rest (concat (map (cmsg_fds U) cs))"
    using parse_loop_cmsgs [OF assms(1,2), of ?fuel rest "[]"] by (simp add: good_def del: parse_loop.simps)
  moreover have "length rest < ?fuel" using le by simp
  ultimately show thesis using that by blast
qed

section \<open>Properties\<close>

text \<open>
  A concrete \<^verbatim>\<open>unix\<close> package: the alignment of 64-bit Linux and its constants.
\<close>

definition linux_unix :: unix_pkg where
  "linux_unix = \<lparr>CmsgSpace = (\<lambda>n. 16 + (n + 7) div 8 * 8), SOL_SOCKET = 1, SCM_RIGHTS = 1\<rparr>"

lemma linux_unix_ok: "cmsg_space_ok linux_unix"
proof -
  have "n \<le> (n + 7) div 8 * 8" for n :: nat
    using div_mult_mod_eq [of "n + 7" 8] mod_less_divisor [of 8 "n + 7"] by linarith
  then show ?thesis by (simp add: cmsg_space_ok_def linux_unix_def SizeofCmsghdr_def)
qed

text \<open>What the parser makes of whole messages alone.\<close>

lemma parseFDs_whole:
  assumes "cmsg_space_ok U" "list_all (cmsg_ok U) cs"
  shows "parseFDs U (concat (map (cmsg_bytes U) cs)) = Some (concat (map (cmsg_fds U) cs), None)"
proof -
  let ?good = "concat (map (cmsg_bytes U) cs)"
  obtain fuel where "0 < fuel"
      "parse_loop U (Suc (length ?good)) ?good [] = parse_loop U fuel [] (concat (map (cmsg_fds U) cs))"
    using parseFDs_split [OF assms, of "[]"] by auto
  then show ?thesis by (cases fuel) (simp_all add: parseFDs_def del: parse_loop.simps(2), simp)
qed

text \<open>
  C23: control data that is a sequence of well-formed control messages is parsed
  without error, and the result is the descriptors of all the messages that carry
  descriptors, in order; messages of another level or type contribute none. A message that carries
  descriptors must have a whole number of them.
\<close>

theorem parseFDs_exact:
  assumes "cmsg_space_ok U" "list_all (cmsg_ok U) cs"
  shows "parseFDs U (concat (map (cmsg_bytes U) cs)) = Some (concat (map (cmsg_fds U) cs), None)"
  by (rule parseFDs_whole [OF assms])

theorem parseFDs_exact_witness:
  "parseFDs linux_unix (concat (map (cmsg_bytes linux_unix)
       [\<lparr>cm_level = 1, cm_type = 1, cm_data = fd_bytes [5, 6, 7]\<rparr>, \<lparr>cm_level = 1, cm_type = 2, cm_data = [0]\<rparr>]))
   = Some ([5, 6, 7], None)"
  using parseFDs_exact [OF linux_unix_ok, of "[\<lparr>cm_level = 1, cm_type = 1, cm_data = fd_bytes [5, 6, 7]\<rparr>,
     \<lparr>cm_level = 1, cm_type = 2, cm_data = [0]\<rparr>]"] ParseUnixRights_fd_bytes [of "[5, 6, 7]"]
  by (simp add: cmsg_fds_def cmsg_ok_def linux_unix_def fd_bytes_def)

text \<open>
  C24: what the parser makes of arbitrary bytes behind well-formed control messages. It returns,
  and then the descriptors of these messages are all in the result, also with an error, so that
  the caller can close them; or it panics, and then some descriptor message in the rest
  has a length that is not a whole number of descriptors. Such a message right behind the
  well-formed ones does make it panic: \<^verbatim>\<open>parseFDs\<close> does not check the length before \<^verbatim>\<open>ParseUnixRights\<close>.
\<close>

theorem parseFDs_keeps_earlier:
  assumes "cmsg_space_ok U" "list_all (cmsg_ok U) cs"
  shows "(case parseFDs U (concat (map (cmsg_bytes U) cs) @ rest) of
      Some (fds, err) \<Rightarrow> \<exists>more. fds = concat (map (cmsg_fds U) cs) @ more
    | None \<Rightarrow> \<exists>k. partial_rights U (drop k rest)) \<and>
    (if partial_rights U rest then parseFDs U (concat (map (cmsg_bytes U) cs) @ rest) = None else True)"
proof -
  let ?good = "concat (map (cmsg_bytes U) cs)" and ?fds = "concat (map (cmsg_fds U) cs)"
  obtain fuel where f: "length rest < fuel"
      "parse_loop U (Suc (length (?good @ rest))) (?good @ rest) [] = parse_loop U fuel rest ?fds"
    by (rule parseFDs_split [OF assms])
  have p: "parseFDs U (?good @ rest) = (case parse_loop U fuel rest ?fds of Parsed fds err \<Rightarrow> Some (fds, err) | _ \<Rightarrow> None)"
    unfolding parseFDs_def f(2) ..
  have "parse_loop U fuel rest ?fds = Panicked" if "partial_rights U rest"
    using f(1) parse_loop_partial [OF that] by (cases fuel) auto
  then show ?thesis
    using p parse_loop_total [OF assms(1) f(1), of ?fds] parse_loop_panics [of U fuel rest ?fds]
      parse_loop_prefix [of U fuel rest ?fds]
    by (cases "parse_loop U fuel rest ?fds") auto
qed

text \<open>Seventeen bytes: the header of a descriptor message and one byte of data.\<close>

definition one_byte_rights :: bytes where
  "one_byte_rights = le64 17 @ le32 1 @ le32 1 @ [7]"

theorem parseFDs_keeps_earlier_witness:
  "(\<exists>more e. parseFDs linux_unix (concat (map (cmsg_bytes linux_unix)
       [\<lparr>cm_level = 1, cm_type = 1, cm_data = fd_bytes [5]\<rparr>]) @ [1, 2, 3]) =
     Some (concat (map (cmsg_fds linux_unix) [\<lparr>cm_level = 1, cm_type = 1, cm_data = fd_bytes [5]\<rparr>]) @ more, e)) \<and>
   parseFDs linux_unix (concat (map (cmsg_bytes linux_unix) []) @ one_byte_rights) = None"
proof
  let ?cs = "[\<lparr>cm_level = 1, cm_type = 1, cm_data = fd_bytes [5]\<rparr>]"
  have short: "\<not> partial_rights linux_unix (drop k [1, 2, 3])" for k
    by (simp add: partial_rights_def readControlHeader_def SizeofCmsghdr_def)
  have "list_all (cmsg_ok linux_unix) ?cs" by (simp add: cmsg_ok_def fd_bytes_def)
  from parseFDs_keeps_earlier [OF linux_unix_ok this, of "[1, 2, 3]"]
  show "\<exists>more e. parseFDs linux_unix (concat (map (cmsg_bytes linux_unix) ?cs) @ [1, 2, 3]) =
      Some (concat (map (cmsg_fds linux_unix) ?cs) @ more, e)"
    using short by (auto split: option.splits)
  have "partial_rights linux_unix one_byte_rights"
    by (simp add: partial_rights_def readControlHeader_def SizeofCmsghdr_def one_byte_rights_def linux_unix_def)
  then show "parseFDs linux_unix (concat (map (cmsg_bytes linux_unix) []) @ one_byte_rights) = None"
    using parseFDs_keeps_earlier [OF linux_unix_ok, of "[]" one_byte_rights] by simp
qed

end
