(* ===== verification/Receive.thy ===== *)
theory Receive
  imports Display Control
begin

text \<open>
  The receive path up to a whole frame: \<^verbatim>\<open>readChunk\<close> and \<^verbatim>\<open>queueFDs\<close> (\<^verbatim>\<open>scm_linux.go\<close>),
  \<^verbatim>\<open>fill\<close>, \<^verbatim>\<open>maxMessageSize\<close>, \<^verbatim>\<open>unread\<close> and \<^verbatim>\<open>nextFrame\<close> (\<^verbatim>\<open>client.go\<close>). A read result is
  the head of \<open>cn_in\<close>; when there is none the read blocks and the call has no
  result, \<open>None\<close>. A read whose control data makes \<^verbatim>\<open>parseFDs\<close> panic does not return either. Every turn of the loop of \<^verbatim>\<open>nextFrame\<close> consumes a read result or
  returns, so the loop is a terminating function of the results to come.

  The abstract view of a connection is the byte stream it still has to frame,
  \<open>stream\<close>; the lemmas show that \<open>nextFrame\<close> cuts exactly the first message off
  that stream, however it is split into reads.
\<close>

section \<open>Reading one chunk\<close>

definition queueFDs :: "display \<Rightarrow> fd list \<Rightarrow> display" where
  "queueFDs d fds = d\<lparr>d_pendingFDs := d_pendingFDs d @ fds, d_recvFDs := d_recvFDs d @ fds\<rparr>"

text \<open>
  The bytes read (\<^verbatim>\<open>recvBuf[:n]\<close>) and the error. On a Unix socket the control data is
  parsed first, then a truncation reported by the kernel overrides any error.
\<close>

definition readChunk :: "unix_pkg \<Rightarrow> display \<Rightarrow> ((bytes \<times> error option) \<times> display) option" where
  "readChunk U d =
     (if cn_closed (d_conn d) then Some (([], Some NetErrClosed), d)
      else case cn_in (d_conn d) of
        [] \<Rightarrow> None
      | r # rs \<Rightarrow>
          let d1 = d\<lparr>d_conn := (d_conn d)\<lparr>cn_in := rs\<rparr>\<rparr>
          in if \<not> d_unix d then Some ((rd_data r, rd_err r), d1)
             else
               (case (if rd_oob r \<noteq> [] then parseFDs U (rd_oob r) else Some ([], None)) of
                  None \<Rightarrow> None
                | Some (fds, perr) \<Rightarrow>
                    let d2 = queueFDs d1 fds;
                        err1 = (case perr of
                                  Some pe \<Rightarrow> Some (ProtocolError ''malformed_control'' 0 0 0 pe)
                                | None \<Rightarrow> rd_err r);
                        err2 = (if rd_ctrunc r
                                then Some (ProtocolError ''control_truncated'' 0 0 0 ErrMalformedFrame) else err1)
                    in Some ((rd_data r, err2), d2)))"

definition unread :: "display \<Rightarrow> bool" where
  "unread d \<longleftrightarrow> d_rpos d < length (d_rbuf d)"

definition maxMessageSize :: "display \<Rightarrow> u32" where
  "maxMessageSize d = (if d_maxMsgLen d = 0 then DefaultMaxMessageSize else d_maxMsgLen d)"

definition fill :: "unix_pkg \<Rightarrow> display \<Rightarrow> (error option \<times> display) option" where
  "fill U d =
     (case d_readErr d of
        Some e \<Rightarrow> Some (Some e, d)
      | None \<Rightarrow>
          let d1 = (if d_rpos d > 0 then d\<lparr>d_rbuf := drop (d_rpos d) (d_rbuf d), d_rpos := 0\<rparr> else d)
          in case readChunk U d1 of
               None \<Rightarrow> None
             | Some ((bs, err), d2) \<Rightarrow>
                 let d3 = (if bs \<noteq> [] then d2\<lparr>d_rbuf := d_rbuf d2 @ bs\<rparr> else d2)
                 in (case err of
                       None \<Rightarrow> Some (None, d3)
                     | Some e0 \<Rightarrow>
                         let e = (if errors_Is e0 IoEOF then IoErrUnexpectedEOF else e0)
                         in if errors_Is e OsErrDeadlineExceeded then Some (Some e, d3)
                            else
                              let d4 = d3\<lparr>d_readErr := Some e\<rparr>
                              in if bs = [] \<or> as_ProtocolError e then Some (Some e, d4)
                                 else Some (None, d4)))"

lemma readChunk_consumes:
  "readChunk U d = Some (r, d') \<Longrightarrow> \<not> cn_closed (d_conn d) \<Longrightarrow>
   length (cn_in (d_conn d')) < length (cn_in (d_conn d)) \<and> d_readErr d' = d_readErr d \<and>
   cn_closed (d_conn d') = cn_closed (d_conn d)"
  by (auto simp: readChunk_def Let_def queueFDs_def split: list.splits if_splits option.splits)

text \<open>A fill that reports no error has used up one read result.\<close>

lemma fill_consumes:
  assumes "fill U d = Some (None, d')"
  shows "length (cn_in (d_conn d')) < length (cn_in (d_conn d))"
proof -
  have "d_readErr d = None" using assms by (auto simp: fill_def split: option.splits)
  let ?d1 = "if d_rpos d > 0 then d\<lparr>d_rbuf := drop (d_rpos d) (d_rbuf d), d_rpos := 0\<rparr> else d"
  have c1: "d_conn ?d1 = d_conn d" by simp
  show ?thesis
  proof (cases "cn_closed (d_conn d)")
    case True
    then have "readChunk U ?d1 = Some (([], Some NetErrClosed), ?d1)" by (simp add: readChunk_def)
    then show ?thesis using assms \<open>d_readErr d = None\<close> by (simp add: fill_def Let_def)
  next
    case False
    then show ?thesis
      using assms \<open>d_readErr d = None\<close> readChunk_consumes [of U ?d1] c1
      by (fastforce simp: fill_def Let_def split: option.splits prod.splits if_splits)
  qed
qed

section \<open>Framing\<close>

function nextFrame :: "unix_pkg \<Rightarrow> display \<Rightarrow> (receivedFrame result \<times> display) option" where
  "nextFrame U d =
     (let buf = drop (d_rpos d) (d_rbuf d);
          more = (case fill U d of
                    None \<Rightarrow> None
                  | Some (Some err, d1) \<Rightarrow>
                      Some (Inl (if d_closed d1 then NetErrClosed else err), d1)
                  | Some (None, d1) \<Rightarrow> nextFrame U d1)
      in if length buf \<ge> HeaderSize then
           (case parseHeader (take HeaderSize buf) (maxMessageSize d) of
              Inl err \<Rightarrow> Some (Inl err, d)
            | Inr (object, opcode, sz) \<Rightarrow>
                if length buf \<ge> unat sz then
                  Some (Inr \<lparr>f_object = object, f_opcode = opcode,
                             f_body = (if unat sz > HeaderSize then drop HeaderSize (take (unat sz) buf) else [])\<rparr>,
                        d\<lparr>d_rpos := d_rpos d + unat sz\<rparr>)
                else more)
         else more)"
  by pat_completeness auto
termination
  by (relation "measure (\<lambda>(U, d). length (cn_in (d_conn d)))") (auto dest: fill_consumes)

declare nextFrame.simps [simp del]

section \<open>The byte stream\<close>

text \<open>The bytes buffered and not framed yet, followed by those of the reads to come.\<close>

definition stream :: "display \<Rightarrow> bytes" where
  "stream d = drop (d_rpos d) (d_rbuf d) @ concat (map rd_data (cn_in (d_conn d)))"

text \<open>The descriptors of a read, and the queue with those of the reads to come.\<close>

definition read_fds :: "unix_pkg \<Rightarrow> readResult \<Rightarrow> fd list" where
  "read_fds U r = (if rd_oob r = [] then [] else case parseFDs U (rd_oob r) of Some (fds, _) \<Rightarrow> fds | None \<Rightarrow> [])"

definition fd_stream :: "unix_pkg \<Rightarrow> display \<Rightarrow> fd list" where
  "fd_stream U d =
     d_pendingFDs d @ (if d_unix d then concat (map (read_fds U) (cn_in (d_conn d))) else [])"

text \<open>A read without any failure, and a connection whose reads are all of that kind.\<close>

definition clean_read :: "unix_pkg \<Rightarrow> readResult \<Rightarrow> bool" where
  "clean_read U r \<longleftrightarrow>
     rd_err r = None \<and> \<not> rd_ctrunc r \<and>
     (rd_oob r = [] \<or> (case parseFDs U (rd_oob r) of Some (_, None) \<Rightarrow> True | _ \<Rightarrow> False))"

definition clean :: "unix_pkg \<Rightarrow> display \<Rightarrow> bool" where
  "clean U d \<longleftrightarrow>
     d_readErr d = None \<and> \<not> cn_closed (d_conn d) \<and> list_all (clean_read U) (cn_in (d_conn d)) \<and>
     d_rpos d \<le> length (d_rbuf d)"

lemma readChunk_clean:
  assumes "\<not> cn_closed (d_conn d)" "cn_in (d_conn d) = r # rs" "clean_read U r"
  shows "readChunk U d = Some ((rd_data r, None),
    (let d1 = d\<lparr>d_conn := (d_conn d)\<lparr>cn_in := rs\<rparr>\<rparr> in if d_unix d then queueFDs d1 (read_fds U r) else d1))"
  using assms
  by (auto simp: readChunk_def clean_read_def read_fds_def Let_def split: option.splits)

lemma fill_clean:
  assumes "clean U d" "cn_in (d_conn d) = r # rs"
  obtains d' where "fill U d = Some (None, d')" "clean U d'" "stream d' = stream d"
    "fd_stream U d' = fd_stream U d" "d_maxMsgLen d' = d_maxMsgLen d" "d_closed d' = d_closed d"
proof -
  let ?d1 = "if d_rpos d > 0 then d\<lparr>d_rbuf := drop (d_rpos d) (d_rbuf d), d_rpos := 0\<rparr> else d"
  define d2 where "d2 = (let x = ?d1\<lparr>d_conn := (d_conn d)\<lparr>cn_in := rs\<rparr>\<rparr>
    in if d_unix d then queueFDs x (read_fds U r) else x)"
  let ?d3 = "if rd_data r \<noteq> [] then d2\<lparr>d_rbuf := d_rbuf d2 @ rd_data r\<rparr> else d2"
  have r: "clean_read U r" "list_all (clean_read U) rs" using assms by (auto simp: clean_def)
  have "readChunk U ?d1 = Some ((rd_data r, None), d2)"
    using readChunk_clean [of ?d1 r rs U] assms r by (simp add: clean_def d2_def Let_def)
  then have "fill U d = Some (None, ?d3)"
    using assms(1) by (simp add: fill_def clean_def Let_def)
  moreover have "clean U ?d3" "stream ?d3 = stream d" "fd_stream U ?d3 = fd_stream U d"
      "d_maxMsgLen ?d3 = d_maxMsgLen d" "d_closed ?d3 = d_closed d"
    using assms r by (auto simp: clean_def d2_def Let_def queueFDs_def stream_def fd_stream_def)
  ultimately show thesis using that by blast
qed

lemma fill_blocked: "clean U d \<Longrightarrow> cn_in (d_conn d) = [] \<Longrightarrow> fill U d = None"
  by (simp add: fill_def clean_def readChunk_def Let_def)

text \<open>The part of the loop body that reads on.\<close>

definition read_on :: "unix_pkg \<Rightarrow> display \<Rightarrow> (receivedFrame result \<times> display) option" where
  "read_on U d =
     (case fill U d of
        None \<Rightarrow> None
      | Some (Some err, d1) \<Rightarrow> Some (Inl (if d_closed d1 then NetErrClosed else err), d1)
      | Some (None, d1) \<Rightarrow> nextFrame U d1)"

lemma nextFrame_short: "length (drop (d_rpos d) (d_rbuf d)) < HeaderSize \<Longrightarrow> nextFrame U d = read_on U d"
  by (subst nextFrame.simps) (simp add: read_on_def Let_def)

lemma nextFrame_header:
  assumes "HeaderSize \<le> length (drop (d_rpos d) (d_rbuf d))"
    and "parseHeader (drop (d_rpos d) (d_rbuf d)) (maxMessageSize d) = Inr (ob, oc, sz)"
  shows "nextFrame U d =
    (if unat sz \<le> length (drop (d_rpos d) (d_rbuf d)) then
       Some (Inr \<lparr>f_object = ob, f_opcode = oc,
                  f_body = drop HeaderSize (take (unat sz) (drop (d_rpos d) (d_rbuf d)))\<rparr>,
             d\<lparr>d_rpos := d_rpos d + unat sz\<rparr>)
     else read_on U d)"
proof -
  have "parseHeader (take HeaderSize (drop (d_rpos d) (d_rbuf d))) (maxMessageSize d) = Inr (ob, oc, sz)"
    using assms by (simp only: parseHeader_take)
  moreover have "HeaderSize \<le> unat sz" using parseHeader_Inr(1) [OF assms(2)] by (simp add: HeaderSize_def)
  ultimately show ?thesis
    using assms(1) by (subst nextFrame.simps) (auto simp: read_on_def Let_def)
qed

lemma nextFrame_bad_header:
  assumes "HeaderSize \<le> length (drop (d_rpos d) (d_rbuf d))"
    and "parseHeader (drop (d_rpos d) (d_rbuf d)) (maxMessageSize d) = Inl err"
  shows "nextFrame U d = Some (Inl err, d)"
  using assms by (subst nextFrame.simps) (simp add: Let_def parseHeader_take)

section \<open>Framing is independent of the reads\<close>

definition accepts :: "display \<Rightarrow> receivedFrame \<Rightarrow> bool" where
  "accepts d f \<longleftrightarrow> wf_frame f \<and> frame_size f \<le> unat (maxMessageSize d)"

lemma maxMessageSize_cong: "d_maxMsgLen d' = d_maxMsgLen d \<Longrightarrow> accepts d' f = accepts d f"
  by (simp add: accepts_def maxMessageSize_def)

lemma nextFrame_ready:
  assumes "clean U d" "drop (d_rpos d) (d_rbuf d) = message_bytes f @ tail" "accepts d f"
  shows "nextFrame U d = Some (Inr f, d\<lparr>d_rpos := d_rpos d + frame_size f\<rparr>)"
proof -
  note sz = wf_frame_size [of f]
  have wf: "wf_frame f" using assms(3) by (simp add: accepts_def)
  have h: "parseHeader (drop (d_rpos d) (d_rbuf d)) (maxMessageSize d) =
      Inr (f_object f, f_opcode f, word_of_nat (frame_size f))"
    unfolding assms(2) by (rule parseHeader_message) (use assms(3) in \<open>auto simp: accepts_def\<close>)
  have le: "HeaderSize \<le> length (drop (d_rpos d) (d_rbuf d))"
    unfolding assms(2) using sz(3) [OF wf] by (simp add: HeaderSize_def)
  have body: "drop HeaderSize (take (frame_size f) (message_bytes f @ tail)) = f_body f"
    by (simp add: message_bytes_def) (simp add: frame_size_def)
  show ?thesis
    using nextFrame_header [OF le h, of U] sz(1) [OF wf] body by (simp add: assms(2))
qed

lemma nextFrame_message:
  assumes "clean U d" "stream d = message_bytes f @ rest" "accepts d f"
  obtains d' where "nextFrame U d = Some (Inr f, d')" "stream d' = rest" "clean U d'"
    "fd_stream U d' = fd_stream U d" "d_maxMsgLen d' = d_maxMsgLen d" "d_closed d' = d_closed d"
  using assms
proof (induction "length (cn_in (d_conn d))" arbitrary: d thesis rule: less_induct)
  case less
  let ?buf = "drop (d_rpos d) (d_rbuf d)" and ?later = "concat (map rd_data (cn_in (d_conn d)))"
  have st: "?buf @ ?later = message_bytes f @ rest" using less.prems(3) by (simp add: stream_def)
  show ?case
  proof (cases "frame_size f \<le> length ?buf")
    case True
    then obtain tail where buf: "?buf = message_bytes f @ tail" and tl: "tail @ ?later = rest"
    proof -
      have "take (frame_size f) ?buf = message_bytes f"
        using arg_cong [OF st, of "take (frame_size f)"] True by simp
      then have "?buf = message_bytes f @ drop (frame_size f) ?buf" by (metis append_take_drop_id)
      then show thesis using that st by (metis append.assoc same_append_eq)
    qed
    note nf = nextFrame_ready [OF less.prems(2) buf less.prems(4)]
    let ?d = "d\<lparr>d_rpos := d_rpos d + frame_size f\<rparr>"
    have "drop (d_rpos d + frame_size f) (d_rbuf d) = tail"
      using buf by (metis add.commute append_eq_conv_conj drop_drop length_message_bytes)
    then have "stream ?d = rest" by (simp add: stream_def tl)
    moreover have "clean U ?d" using less.prems(2) True by (auto simp: clean_def)
    ultimately show ?thesis using nf less.prems(1) [of ?d] by (simp add: fd_stream_def)
  next
    case False
    have "nextFrame U d = read_on U d"
    proof (cases "HeaderSize \<le> length ?buf")
      case True
      have "parseHeader ?buf (maxMessageSize d) = parseHeader (?buf @ ?later) (maxMessageSize d)"
        using True by (simp add: parseHeader_append)
      also have "\<dots> = Inr (f_object f, f_opcode f, word_of_nat (frame_size f))"
        unfolding st by (rule parseHeader_message) (use less.prems(4) in \<open>auto simp: accepts_def\<close>)
      finally show ?thesis
        using nextFrame_header [OF True] False wf_frame_size(1) [of f] less.prems(4)
        by (simp add: accepts_def)
    qed (simp add: nextFrame_short)
    moreover obtain r rs where "cn_in (d_conn d) = r # rs"
      using st False arg_cong [OF st, of length] by (cases "cn_in (d_conn d)") auto
    then obtain d1 where d1: "fill U d = Some (None, d1)" "clean U d1" "stream d1 = stream d"
        "fd_stream U d1 = fd_stream U d" "d_maxMsgLen d1 = d_maxMsgLen d" "d_closed d1 = d_closed d"
      using fill_clean [OF less.prems(2)] by metis
    ultimately have nf: "nextFrame U d = nextFrame U d1" by (simp add: read_on_def)
    show ?thesis
      using less.hyps [of d1] fill_consumes [OF d1(1)] d1 less.prems nf
      by (metis maxMessageSize_cong)
  qed
qed

section \<open>Reading leaves the stream alone\<close>

text \<open>Also with failing reads: a fill moves bytes within the stream, a frame cuts its bytes off.\<close>

lemma readChunk_stream:
  assumes "readChunk U d = Some ((bs, err), d')"
  shows "bs @ concat (map rd_data (cn_in (d_conn d'))) = concat (map rd_data (cn_in (d_conn d)))
      \<and> d_rbuf d' = d_rbuf d \<and> d_rpos d' = d_rpos d"
  using assms
  by (auto simp: readChunk_def Let_def queueFDs_def split: if_splits list.splits option.splits)

lemma fill_stream:
  assumes "fill U d = Some (r, d')"
  shows "stream d' = stream d"
proof (cases "d_readErr d")
  case None
  let ?d1 = "if d_rpos d > 0 then d\<lparr>d_rbuf := drop (d_rpos d) (d_rbuf d), d_rpos := 0\<rparr> else d"
  have d1: "d_rpos ?d1 = 0" "d_rbuf ?d1 = drop (d_rpos d) (d_rbuf d)" "d_conn ?d1 = d_conn d" by auto
  obtain bs err d2 where c: "readChunk U ?d1 = Some ((bs, err), d2)"
    using assms None by (cases "readChunk U ?d1") (auto simp: fill_def Let_def)
  let ?d3 = "if bs \<noteq> [] then d2\<lparr>d_rbuf := d_rbuf d2 @ bs\<rparr> else d2"
  note rc = readChunk_stream [OF c]
  have "stream ?d3 = stream d" using rc d1 by (auto simp: stream_def)
  moreover have "stream d' = stream ?d3"
    using assms None c
    by (auto simp: fill_def Let_def stream_def split: option.splits if_splits)
  ultimately show ?thesis by simp
qed (use assms in \<open>simp add: fill_def\<close>)

lemma stream_unframed: "stream (d\<lparr>d_rpos := d_rpos d + n\<rparr>) = drop n (stream d)"
  if "n \<le> length (drop (d_rpos d) (d_rbuf d))"
  using that by (simp add: stream_def add.commute)

lemma nextFrame_stream:
  "nextFrame U d = Some (Inr f, d') \<Longrightarrow>
   HeaderSize + length (f_body f) \<le> length (stream d) \<and>
   stream d' = drop (HeaderSize + length (f_body f)) (stream d)"
proof (induction U d rule: nextFrame.induct)
  case (1 U d)
  let ?buf = "drop (d_rpos d) (d_rbuf d)"
  have on: ?case if "nextFrame U d = read_on U d"
  proof -
    have "read_on U d = Some (Inr f, d')" using that "1.prems" by simp
    then obtain d1 where "fill U d = Some (None, d1)" "nextFrame U d1 = Some (Inr f, d')"
      by (auto simp: read_on_def split: option.splits prod.splits)
    then show ?thesis using "1.IH" [OF refl _ refl] fill_stream by fastforce
  qed
  show ?case
  proof (cases "HeaderSize \<le> length ?buf")
    case True
    show ?thesis
    proof (cases "parseHeader ?buf (maxMessageSize d)")
      case (Inl err)
      then show ?thesis using nextFrame_bad_header [OF True Inl, of U] "1.prems" by simp
    next
      case (Inr x)
      then obtain ob oc sz where x: "parseHeader ?buf (maxMessageSize d) = Inr (ob, oc, sz)"
        by (cases x) auto
      note h = nextFrame_header [OF True x, of U]
      have ge: "HeaderSize \<le> unat sz" using parseHeader_Inr(1) [OF x] by (simp add: HeaderSize_def)
      show ?thesis
      proof (cases "unat sz \<le> length ?buf")
        case True
        then have "f_body f = drop HeaderSize (take (unat sz) ?buf)" "d' = d\<lparr>d_rpos := d_rpos d + unat sz\<rparr>"
          using h "1.prems" by auto
        moreover from this True ge have "HeaderSize + length (f_body f) = unat sz" by simp
        moreover have "unat sz \<le> length (stream d)" using True by (simp add: stream_def)
        ultimately show ?thesis using stream_unframed [OF True] by simp
      next
        case False
        then show ?thesis using h on by simp
      qed
    qed
  next
    case False
    then show ?thesis using nextFrame_short [of d U] on by simp
  qed
qed

section \<open>Invariants of the receive path\<close>

text \<open>A property that every update of the receive state keeps is kept by reading a frame.\<close>

locale receive_invariant =
  fixes I :: "display \<Rightarrow> bool"
  assumes reads: "I d \<Longrightarrow> I (d\<lparr>d_conn := (d_conn d)\<lparr>cn_in := rs\<rparr>\<rparr>)"
    and rbuf: "I d \<Longrightarrow> I (d\<lparr>d_rbuf := bs\<rparr>)"
    and rpos: "I d \<Longrightarrow> I (d\<lparr>d_rpos := n\<rparr>)"
    and readErr: "I d \<Longrightarrow> I (d\<lparr>d_readErr := e\<rparr>)"
    and queueFDs: "I d \<Longrightarrow> I (queueFDs d fds)"
begin

lemma compact: "I d \<Longrightarrow> I (d\<lparr>d_rbuf := bs, d_rpos := n\<rparr>)"
  by (rule rpos, rule rbuf)

lemma readChunk: "I d \<Longrightarrow> readChunk U d = Some (r, d') \<Longrightarrow> I d'"
  by (auto simp: readChunk_def Let_def split: if_splits list.splits option.splits
      intro!: queueFDs reads)

lemma fill: "I d \<Longrightarrow> fill U d = Some (r, d') \<Longrightarrow> I d'"
proof -
  assume I: "I d" and f: "fill U d = Some (r, d')"
  let ?d1 = "if d_rpos d > 0 then d\<lparr>d_rbuf := drop (d_rpos d) (d_rbuf d), d_rpos := 0\<rparr> else d"
  show ?thesis
  proof (cases "d_readErr d")
    case None
    then obtain bs err d2 where c: "readChunk U ?d1 = Some ((bs, err), d2)"
      using f by (cases "readChunk U ?d1") (auto simp: fill_def Let_def)
    have "I ?d1" using I by (simp add: compact)
    then have "I d2" using c by (rule readChunk)
    then have "I (if bs \<noteq> [] then d2\<lparr>d_rbuf := d_rbuf d2 @ bs\<rparr> else d2)" by (simp add: rbuf)
    then show ?thesis
      using f None c by (auto simp: fill_def Let_def readErr split: option.splits if_splits)
  qed (use I f in \<open>simp add: fill_def\<close>)
qed

lemma nextFrame: "nextFrame U d = Some (r, d') \<Longrightarrow> I d \<Longrightarrow> I d'"
proof (induction U d rule: nextFrame.induct)
  case (1 U d)
  have on: "I d'" if "read_on U d = Some (r, d')"
  proof (cases "fill U d")
    case (Some x)
    then obtain e d1 where x: "fill U d = Some (e, d1)" by (cases x) auto
    then have "I d1" using fill "1.prems"(2) by blast
    then show ?thesis using that x "1.IH" [OF refl _ refl] by (auto simp: read_on_def split: option.splits)
  qed (use that in \<open>simp add: read_on_def\<close>)
  show ?case
  proof (cases "HeaderSize \<le> length (drop (d_rpos d) (d_rbuf d))")
    case True
    show ?thesis
    proof (cases "parseHeader (drop (d_rpos d) (d_rbuf d)) (maxMessageSize d)")
      case (Inl err)
      then show ?thesis using nextFrame_bad_header [OF True Inl, of U] "1.prems" by simp
    next
      case (Inr x)
      then obtain ob oc sz where x: "parseHeader (drop (d_rpos d) (d_rbuf d)) (maxMessageSize d) = Inr (ob, oc, sz)"
        by (cases x) auto
      then show ?thesis
        using nextFrame_header [OF True x, of U] "1.prems" on by (auto simp: rpos split: if_splits)
    qed
  next
    case False
    then show ?thesis using nextFrame_short [of d U] "1.prems"(1) on by simp
  qed
qed

end

interpretation id_recv: receive_invariant id_inv
  by unfold_locales (simp_all add: id_inv_def queueFDs_def)

interpretation tab_recv: receive_invariant tables_inv
  by unfold_locales (simp_all add: tables_inv_def queueFDs_def)

interpretation fd_recv: receive_invariant "fds_conserved held" for held
  by unfold_locales (auto simp: fds_conserved_def queueFDs_def live_fds_def add_ac)

section \<open>Properties\<close>

fun read_frames :: "unix_pkg \<Rightarrow> nat \<Rightarrow> display \<Rightarrow> (receivedFrame result list \<times> display) option" where
  "read_frames U 0 d = Some ([], d)"
| "read_frames U (Suc n) d =
     (case nextFrame U d of
        None \<Rightarrow> None
      | Some (r, d1) \<Rightarrow>
          (case read_frames U n d1 of None \<Rightarrow> None | Some (rs, d2) \<Rightarrow> Some (r # rs, d2)))"

text \<open>
  C1: read boundaries never define message boundaries. On a connection whose reads
  succeed and whose bytes are a sequence of acceptable messages, split into reads in
  any way, successive calls of \<^verbatim>\<open>nextFrame\<close> return exactly these messages in order,
  leave the bytes behind them for later and lose no descriptor of any read.
\<close>

theorem framing_exact:
  assumes "clean U d" "stream d = concat (map message_bytes fs) @ rest" "list_all (accepts d) fs"
  shows "\<exists>d'. read_frames U (length fs) d = Some (map Inr fs, d') \<and> stream d' = rest \<and> clean U d' \<and>
    fd_stream U d' = fd_stream U d"
  using assms
proof (induction fs arbitrary: d)
  case (Cons f fs)
  have s: "stream d = message_bytes f @ (concat (map message_bytes fs) @ rest)" using Cons.prems(2) by simp
  have acc: "accepts d f" using Cons.prems(3) by simp
  obtain d1 where d1: "nextFrame U d = Some (Inr f, d1)" "stream d1 = concat (map message_bytes fs) @ rest"
      "clean U d1" "fd_stream U d1 = fd_stream U d" "d_maxMsgLen d1 = d_maxMsgLen d"
    by (rule nextFrame_message [OF Cons.prems(1) s acc])
  have "list_all (accepts d1) fs"
    using Cons.prems(3) maxMessageSize_cong [OF d1(5)] by (simp add: list_all_iff)
  then show ?case using Cons.IH [OF d1(3,2)] d1(1,4) by auto
qed simp

definition two_frames :: "receivedFrame list" where
  "two_frames = [\<lparr>f_object = 3, f_opcode = 0, f_body = le32 9\<rparr>, \<lparr>f_object = 4, f_opcode = 1, f_body = []\<rparr>]"

definition split_reads :: display where
  "split_reads = fresh_display\<lparr>d_conn := idle_conn\<lparr>cn_in :=
     [\<lparr>rd_data = take 5 (concat (map message_bytes two_frames)), rd_oob = [], rd_ctrunc = False, rd_err = None\<rparr>,
      \<lparr>rd_data = drop 5 (concat (map message_bytes two_frames)), rd_oob = [], rd_ctrunc = False, rd_err = None\<rparr>]\<rparr>\<rparr>"

theorem framing_exact_witness:
  "\<exists>d'. read_frames linux_unix (length two_frames) split_reads = Some (map Inr two_frames, d') \<and>
     stream d' = [] \<and> clean linux_unix d' \<and> fd_stream linux_unix d' = fd_stream linux_unix split_reads"
  by (rule framing_exact)
     (simp_all add: split_reads_def clean_def clean_read_def stream_def fresh_display_def idle_conn_def
        two_frames_def accepts_def wf_frame_def frame_size_def HeaderSize_def maxMessageSize_def
        DefaultMaxMessageSize_def)

text \<open>
  C29: a failed read never loses bytes, and only a deadline can be retried. After any
  other error the connection keeps failing with the same error without reading
  again; after an expired deadline it can be read again.
\<close>

theorem read_errors_sticky:
  assumes "fill U d = Some (Some e, d')"
  shows "stream d' = stream d \<and>
    (if d_readErr d = None \<and> errors_Is e OsErrDeadlineExceeded then d_readErr d' = None
     else fill U d' = Some (Some e, d'))"
proof (cases "d_readErr d")
  case None
  let ?d1 = "if d_rpos d > 0 then d\<lparr>d_rbuf := drop (d_rpos d) (d_rbuf d), d_rpos := 0\<rparr> else d"
  obtain bs err d2 where c: "readChunk U ?d1 = Some ((bs, err), d2)"
    using assms None by (cases "readChunk U ?d1") (auto simp: fill_def Let_def)
  have r2: "d_readErr d2 = None"
    using c None by (auto simp: readChunk_def Let_def queueFDs_def split: if_splits list.splits option.splits)
  have "(if errors_Is e OsErrDeadlineExceeded then d_readErr d' = None else d_readErr d' = Some e)"
    using assms None c r2 by (auto simp: fill_def Let_def split: option.splits if_splits)
  then show ?thesis using fill_stream [OF assms] None by (auto simp: fill_def)
next
  case (Some x)
  then show ?thesis using assms by (simp add: fill_def)
qed

theorem read_errors_sticky_witness:
  "\<exists>d'. fill linux_unix (fresh_display\<lparr>d_conn := idle_conn\<lparr>cn_in :=
       [\<lparr>rd_data = [], rd_oob = [], rd_ctrunc = False, rd_err = Some IoEOF\<rparr>]\<rparr>\<rparr>) =
     Some (Some IoErrUnexpectedEOF, d') \<and> fill linux_unix d' = Some (Some IoErrUnexpectedEOF, d')"
proof -
  let ?d = "fresh_display\<lparr>d_conn := idle_conn\<lparr>cn_in :=
       [\<lparr>rd_data = [], rd_oob = [], rd_ctrunc = False, rd_err = Some IoEOF\<rparr>]\<rparr>\<rparr>"
  obtain d' where d': "fill linux_unix ?d = Some (Some IoErrUnexpectedEOF, d')"
    by (simp add: fill_def readChunk_def queueFDs_def fresh_display_def idle_conn_def Let_def)
  then show ?thesis using read_errors_sticky [OF d'] by (simp add: fresh_display_def)
qed

end
