(* ===== verification/Dispatch.thy ===== *)
theory Dispatch
  imports Registry Receive
begin

text \<open>
  Dispatching of events: \<^verbatim>\<open>prepareFrame\<close>, \<^verbatim>\<open>dispatchFrame\<close>, \<^verbatim>\<open>handleDisplayEvent\<close>, \<^verbatim>\<open>fail\<close>
  and \<^verbatim>\<open>Dispatch\<close>, and the event methods of the registry and the
  sync callback. The application is a parameter: an \<open>app\<close> gives, for every handler the
  library can call, the library calls this handler makes, as a function of the event
  and of the whole connection state. A sequential handler that returns is such a
  function, since the calls it makes depend on nothing else.

  The lemmas carry the invariants of the connection through any handler and show
  what happens to descriptors, zombies and IDs on every branch of a dispatch.
\<close>

section \<open>The application\<close>

datatype api =
    ApiNewProxy proxy
  | ApiSetID addr u32
  | ApiSetContext addr "nat option"
  | ApiSetVersion addr u32
  | ApiAllocateID
  | ApiRegister "addr option"
  | ApiUnregister "addr option"
  | ApiUnregisterID u32
  | ApiAbandon "addr option"
  | ApiDisplaySendRequest u32 u16 "fd list" "goval list"
  | ApiContextSendRequest "addr option" u32 "fd list" "goval list"
  | ApiSendDestructor "addr option" u32 "fd list" "goval list"
  | ApiRequest Request "goval list"
  | ApiRequestArgs Request "Arg list"
  | ApiSync
  | ApiBind u32 string u32 addr
  | ApiBindNegotiated "u32 list" string u32 addr
  | ApiBindID u32 string u32
  | ApiAddHandler string "nat option"
  | ApiAddGlobalHandler "nat option"
  | ApiAddGlobalRemoveHandler "nat option"
  | ApiRegisterEventSignature u32 u16 string
  | ApiClose
  | ApiContextClose

definition new_proxy :: "display \<Rightarrow> proxy \<Rightarrow> display" where
  "new_proxy d p = d\<lparr>d_brk := Suc (d_brk d), d_heap := (d_heap d)(d_brk d := p)\<rparr>"

fun run_api :: "api \<Rightarrow> display \<Rightarrow> display" where
  "run_api (ApiNewProxy p) d = new_proxy d p"
| "run_api (ApiSetID a i) d = SetID d a i"
| "run_api (ApiSetContext a c) d = SetContext d a c"
| "run_api (ApiSetVersion a v) d = SetVersion d a v"
| "run_api ApiAllocateID d = snd (allocateID d)"
| "run_api (ApiRegister p) d = Register d p"
| "run_api (ApiUnregister p) d = Unregister d p"
| "run_api (ApiUnregisterID i) d = UnregisterID d i"
| "run_api (ApiAbandon p) d = snd (Abandon d p)"
| "run_api (ApiDisplaySendRequest ob oc fds args) d = snd (Display_SendRequestWithFDs d ob oc fds args)"
| "run_api (ApiContextSendRequest p oc fds args) d = snd (Context_SendRequestWithFDs d p oc fds args)"
| "run_api (ApiSendDestructor p oc fds args) d = snd (SendDestructorWithFDs d p oc fds args)"
| "run_api (ApiRequest r args) d = snd (Context_Request d r args)"
| "run_api (ApiRequestArgs r vals) d = snd (RequestArgs d r vals)"
| "run_api ApiSync d = snd (Sync d)"
| "run_api (ApiBind name iface v a) d = snd (Bind d name iface v a)"
| "run_api (ApiBindNegotiated ord iface v a) d = snd (BindNegotiated ord d iface v a)"
| "run_api (ApiBindID name iface v) d = snd (BindID d name iface v)"
| "run_api (ApiAddHandler iface h) d = AddHandler d iface (map_option UserHandler h)"
| "run_api (ApiAddGlobalHandler h) d = AddGlobalHandler d h"
| "run_api (ApiAddGlobalRemoveHandler h) d = AddGlobalRemoveHandler d h"
| "run_api (ApiRegisterEventSignature ob oc t) d = RegisterEventSignature d ob oc t"
| "run_api ApiClose d = snd (Close d)"
| "run_api ApiContextClose d = snd (Context_Close d)"

fun run_apis :: "api list \<Rightarrow> display \<Rightarrow> display" where
  "run_apis [] d = d"
| "run_apis (x # xs) d = run_apis xs (run_api x d)"

text \<open>
  What an event handler can do beyond the library calls: take the next descriptor
  out of the event and keep it, or take it out and close it.
\<close>

datatype handler_act = TakeFD | CloseFD | Call api

fun run_act :: "handler_act \<Rightarrow> event \<times> display \<Rightarrow> event \<times> display" where
  "run_act TakeFD (e, d) =
     (let (f, e') = Event_FD e
      in (e', case Take f of (Inr n, _) \<Rightarrow> d\<lparr>d_takenFDs := d_takenFDs d @ [n]\<rparr> | (Inl _, _) \<Rightarrow> d))"
| "run_act CloseFD (e, d) =
     (let (f, e') = Event_FD e in (e', d\<lparr>d_closedFDs := d_closedFDs d @ fst (OwnedFD_Close f)\<rparr>))"
| "run_act (Call x) (e, d) = (e, run_api x d)"

fun run_acts :: "handler_act list \<Rightarrow> event \<times> display \<Rightarrow> event \<times> display" where
  "run_acts [] s = s"
| "run_acts (x # xs) s = run_acts xs (run_act x s)"

record app =
  on_event :: "addr \<Rightarrow> event \<Rightarrow> display \<Rightarrow> handler_act list"
  on_global :: "nat \<Rightarrow> u32 \<Rightarrow> u32 \<Rightarrow> display \<Rightarrow> api list"
  on_wrapped :: "nat \<Rightarrow> RegistryGlobalEvent \<Rightarrow> display \<Rightarrow> api list"
  on_remove :: "nat \<Rightarrow> RegistryGlobalRemoveEvent \<Rightarrow> display \<Rightarrow> api list"

definition log_delivery :: "display \<Rightarrow> delivery \<Rightarrow> display" where
  "log_delivery d x = d\<lparr>d_trace := d_trace d @ [x]\<rparr>"

section \<open>Registry events\<close>

text \<open>One handler; the closure of \<^verbatim>\<open>AddGlobalHandler\<close> looks the global up again.\<close>

fun call_global_handler :: "app \<Rightarrow> u32 \<Rightarrow> u32 \<Rightarrow> globalHandler \<Rightarrow> display \<Rightarrow> display" where
  "call_global_handler A name version (UserHandler k) d =
     run_apis (on_global A k name version d) (log_delivery d (ToGlobal k name version))"
| "call_global_handler A name version (WrappedHandler k) d =
     (case FindGlobalByName d name of
        None \<Rightarrow> d
      | Some g \<Rightarrow>
          let ev = \<lparr>ge_name = name, ge_interface = g_interface g, ge_version = version\<rparr>
          in run_apis (on_wrapped A k ev d) (log_delivery d (ToWrapped k ev)))"

fun call_global_handlers :: "app \<Rightarrow> u32 \<Rightarrow> u32 \<Rightarrow> globalHandler list \<Rightarrow> display \<Rightarrow> display" where
  "call_global_handlers A name version [] d = d"
| "call_global_handlers A name version (h # hs) d =
     call_global_handlers A name version hs (call_global_handler A name version h d)"

definition handleGlobal :: "app \<Rightarrow> display \<Rightarrow> u32 \<Rightarrow> string \<Rightarrow> u32 \<Rightarrow> display" where
  "handleGlobal A d name iface version =
     (let g = \<lparr>g_name = name, g_interface = iface, g_version = version\<rparr>;
          d1 = d\<lparr>d_registry := (d_registry d)\<lparr>r_globals := (r_globals (d_registry d))(name \<mapsto> g)\<rparr>\<rparr>;
          handlers = r_handlers (d_registry d1) iface @ r_handlers (d_registry d1) ''*''
      in call_global_handlers A name version handlers d1)"

fun call_remove_handlers :: "app \<Rightarrow> u32 \<Rightarrow> nat list \<Rightarrow> display \<Rightarrow> display" where
  "call_remove_handlers A name [] d = d"
| "call_remove_handlers A name (k # ks) d =
     call_remove_handlers A name ks
       (run_apis (on_remove A k \<lparr>gr_name = name\<rparr> d) (log_delivery d (ToRemove k \<lparr>gr_name = name\<rparr>)))"

definition handleGlobalRemove :: "app \<Rightarrow> display \<Rightarrow> u32 \<Rightarrow> display" where
  "handleGlobalRemove A d name =
     (let d1 = d\<lparr>d_registry := (d_registry d)\<lparr>r_globals := (r_globals (d_registry d))(name := None)\<rparr>\<rparr>
      in call_remove_handlers A name (r_removeHandlers (d_registry d1)) d1)"

definition Registry_Dispatch :: "app \<Rightarrow> event \<Rightarrow> display \<Rightarrow> event \<times> display" where
  "Registry_Dispatch A e d =
     (if Opcode e = 0 then
        let (name, e1) = Event_Uint32 e; (iface, e2) = Event_String e1; (version, e3) = Event_Uint32 e2
        in (e3, handleGlobal A d name iface version)
      else if Opcode e = 1 then
        let (name, e1) = Event_Uint32 e in (e1, handleGlobalRemove A d name)
      else (e, d))"

section \<open>Delivery to objects\<close>

text \<open>\<^verbatim>\<open>callbackObject.Dispatch\<close>.\<close>

definition callback_Dispatch :: "addr \<Rightarrow> event \<Rightarrow> display \<Rightarrow> display" where
  "callback_Dispatch a e d = (if Opcode e \<noteq> 0 then d else Unregister d (Some a))"

text \<open>\<^verbatim>\<open>BaseProxy.Dispatch\<close> does nothing.\<close>

abbreviation (input) BaseProxy_Dispatch :: "event \<Rightarrow> display \<Rightarrow> event \<times> display" where
  "BaseProxy_Dispatch e d \<equiv> (e, d)"

text \<open>
  The call \<^verbatim>\<open>r.Dispatch(ev)\<close>, by the dynamic type of the object. The display is no
  event receiver.
\<close>

fun deliver :: "app \<Rightarrow> object \<Rightarrow> event \<Rightarrow> display \<Rightarrow> event \<times> display" where
  "deliver A (ProxyObj a) e d =
     (case p_class (d_heap d a) of
        BaseClass \<Rightarrow> BaseProxy_Dispatch e (log_delivery d (ToProxy a e))
      | CallbackClass \<Rightarrow> (e, callback_Dispatch a e (log_delivery d (ToProxy a e)))
      | UserClass _ \<Rightarrow> run_acts (on_event A a e d) (e, log_delivery d (ToProxy a e)))"
| "deliver A RegistryObj e d = Registry_Dispatch A e d"
| "deliver A _ e d = (e, d)"

section \<open>One frame\<close>

text \<open>The interface \<^verbatim>\<open>signatureProvider\<close>: \<open>None\<close> for an object that does not implement it.\<close>

fun signatureProvider :: "display \<Rightarrow> object \<Rightarrow> (u16 \<Rightarrow> string option) option" where
  "signatureProvider d (ProxyObj a) = p_sig (d_heap d a)"
| "signatureProvider d RegistryObj = Some Registry_EventSignature"
| "signatureProvider d _ = None"

definition eventSignature :: "display \<Rightarrow> object \<Rightarrow> u32 \<Rightarrow> u16 \<Rightarrow> string option" where
  "eventSignature d obj object opcode =
     (let sigObj = (case obj of ZombieObj a \<Rightarrow> ProxyObj a | _ \<Rightarrow> obj)
      in case signatureProvider d sigObj of
           Some p \<Rightarrow> p opcode
         | None \<Rightarrow> d_signatures d (object, opcode))"

datatype prepared = PErr error | PDisplay | PObject object event

definition prepareFrame :: "display \<Rightarrow> receivedFrame \<Rightarrow> prepared \<times> display" where
  "prepareFrame d f =
     (if d_closed d then (PErr NetErrClosed, d)
      else if f_object f = displayObjectID then
        if d_pendingFDs d \<noteq> [] \<and> \<not> unread d then (PErr (ProtocolError ''extra_fd'' 0 0 0 ErrMalformedFrame), d)
        else (PDisplay, d)
      else case objectAt d (f_object f) of
        None \<Rightarrow> (PErr (ProtocolError ''unknown_object'' (f_object f) (f_opcode f) 0 ErrUnknownObject), d)
      | Some obj \<Rightarrow>
          (case eventSignature d obj (f_object f) (f_opcode f) of
             None \<Rightarrow> (PErr (ProtocolError ''unknown_opcode'' (f_object f) (f_opcode f) 0 ErrUnknownOpcode), d)
           | Some sig \<Rightarrow>
               (case validateEventBody sig (f_body f) of
                  Some err \<Rightarrow> (PErr (ProtocolError ''malformed_payload'' (f_object f) (f_opcode f) 0 err), d)
                | None \<Rightarrow>
                    let count = count_fd sig
                    in if length (d_pendingFDs d) < count
                       then (PErr (ProtocolError ''missing_fd'' (f_object f) (f_opcode f) 0 ErrMalformedFrame), d)
                       else
                         let ev = newEvent (f_object f) (f_opcode f) (f_body f)
                                    (map Some (take count (d_pendingFDs d)));
                             d1 = d\<lparr>d_pendingFDs := drop count (d_pendingFDs d)\<rparr>
                         in if \<not> unread d1 \<and> d_pendingFDs d1 \<noteq> []
                            then (PErr (ProtocolError ''extra_fd'' (f_object f) (f_opcode f) 0 ErrMalformedFrame),
                                  d1\<lparr>d_closedFDs := d_closedFDs d1 @ close_fds (ev_fds ev)\<rparr>)
                            else (PObject obj ev, d1))))"

definition handleDisplayEvent :: "display \<Rightarrow> u16 \<Rightarrow> bytes \<Rightarrow> error option \<times> display" where
  "handleDisplayEvent d opcode data =
     (if opcode = 0 then
        (case validateEventBody ''object,uint,string,'' data of
           Some err \<Rightarrow> (Some (ProtocolError ''malformed_display_error'' 0 0 0 err), d)
         | None \<Rightarrow>
             let e = newEvent displayObjectID opcode data [];
                 (objectID, e1) = Event_Uint32 e;
                 (code, e2) = Event_Uint32 e1
             in (Some (DisplayError objectID code (fst (Event_String e2))), d))
      else if opcode = 1 then
        if length data \<noteq> 4
        then (Some (ProtocolError ''short_delete_id'' displayObjectID opcode
                      (word_of_nat (length data) + 8) ErrMalformedFrame), d)
        else delete_id d (u32le data)
      else (Some (ProtocolError ''unknown_opcode'' displayObjectID opcode 0 ErrUnknownOpcode), d))"

definition is_zombie :: "object \<Rightarrow> bool" where
  "is_zombie obj \<longleftrightarrow> (case obj of ZombieObj _ \<Rightarrow> True | _ \<Rightarrow> False)"

text \<open>
  \<^verbatim>\<open>dispatchFrame\<close>: an event for a zombie, or for an object that is no longer the one
  registered, is not delivered; the descriptors left in the event are closed at
  the end in every case.
\<close>

definition dispatchFrame :: "app \<Rightarrow> display \<Rightarrow> receivedFrame \<Rightarrow> error option \<times> display" where
  "dispatchFrame A d f =
     (case prepareFrame d f of
        (PErr err, d1) \<Rightarrow> (Some err, d1)
      | (PDisplay, d1) \<Rightarrow> handleDisplayEvent d1 (f_opcode f) (f_body f)
      | (PObject obj ev, d1) \<Rightarrow>
          let (ev2, d2) = (if is_zombie obj \<or> objectAt d1 (f_object f) \<noteq> Some obj then (ev, d1)
                           else deliver A obj ev d1)
          in (None, d2\<lparr>d_closedFDs := d_closedFDs d2 @ close_fds (ev_fds ev2)\<rparr>))"

section \<open>The dispatch loop\<close>

definition fail :: "display \<Rightarrow> error option \<Rightarrow> error option \<times> display" where
  "fail d err =
     (case err of
        None \<Rightarrow> (None, d)
      | Some e \<Rightarrow>
          let d1 = (if as_ProtocolError e then closePendingFDs d else d);
              d2 = (if errors_Is e IoErrUnexpectedEOF then closePendingFDs d1 else d1)
          in (Some e, d2))"

definition Dispatch :: "unix_pkg \<Rightarrow> app \<Rightarrow> display \<Rightarrow> (error option \<times> display) option" where
  "Dispatch U A d =
     (if d_closed d then Some (Some NetErrClosed, d)
      else case nextFrame U d of
             None \<Rightarrow> None
           | Some (r, d1) \<Rightarrow>
               if d_closed d1 then Some (Some NetErrClosed, d1)
               else (case r of
                       Inl err \<Rightarrow> Some (fail d1 (Some err))
                     | Inr frame \<Rightarrow> (let (err, d2) = dispatchFrame A d1 frame in Some (fail d2 err))))"

section \<open>What handlers cannot touch\<close>

text \<open>
  The laws of the request path and of the remaining library calls: a property that
  every primitive update keeps is kept by every sequence of calls.
\<close>

locale api_invariant = request_invariant +
  assumes UnregisterID: "I d \<Longrightarrow> I (UnregisterID d i)"
    and Close: "I d \<Longrightarrow> I (snd (Close d))"
    and cx_closed: "I d \<Longrightarrow> I (d\<lparr>d_context := (d_context d)\<lparr>cx_closed := True\<rparr>\<rparr>)"
    and signatures: "I d \<Longrightarrow> I (d\<lparr>d_signatures := sg\<rparr>)"
    and handlers: "I d \<Longrightarrow> I (d\<lparr>d_registry := (d_registry d)\<lparr>r_handlers := hs\<rparr>\<rparr>)"
    and removeHandlers: "I d \<Longrightarrow> I (d\<lparr>d_registry := (d_registry d)\<lparr>r_removeHandlers := ks\<rparr>\<rparr>)"
begin

lemma run_api: "I d \<Longrightarrow> I (run_api x d)"
  by (cases x)
     (auto simp: new_proxy_def new_object SetID SetContext SetVersion allocateID Register Unregister
        UnregisterID Abandon_def claimDestroy Display_SendRequestWithFDs_def sendRequest_guarded run_guard_def
        Context_SendRequestWithFDs_def SendDestructorWithFDs_def sendChecked Context_Request_def
        RequestArgs_def request Sync Bind BindNegotiated BindID AddHandler_def AddGlobalHandler_def
        AddGlobalRemoveHandler_def handlers removeHandlers RegisterEventSignature_def signatures Close Context_Close_def
        cx_closed split: option.splits)

lemma run_apis: "I d \<Longrightarrow> I (run_apis xs d)"
  by (induction xs arbitrary: d) (auto simp: run_api)

end

text \<open>With the two fields the registry events write, it is kept by every handler call.\<close>

locale handler_invariant = api_invariant +
  assumes trace: "I d \<Longrightarrow> I (d\<lparr>d_trace := tr\<rparr>)"
    and globals: "I d \<Longrightarrow> I (d\<lparr>d_registry := (d_registry d)\<lparr>r_globals := gs\<rparr>\<rparr>)"
begin

lemma log_delivery: "I d \<Longrightarrow> I (log_delivery d x)"
  by (simp add: log_delivery_def trace)

lemma call_global_handlers: "I d \<Longrightarrow> I (call_global_handlers A name version hs d)"
proof (induction hs arbitrary: d)
  case (Cons h hs)
  then show ?case by (cases h) (simp_all add: run_apis log_delivery Let_def split: option.splits)
qed simp

lemma call_remove_handlers: "I d \<Longrightarrow> I (call_remove_handlers A name ks d)"
  by (induction ks arbitrary: d) (auto simp: run_apis log_delivery)

lemma Registry_Dispatch: "I d \<Longrightarrow> I (snd (Registry_Dispatch A e d))"
  by (auto simp: Registry_Dispatch_def handleGlobal_def handleGlobalRemove_def Let_def case_prod_beta
      intro!: call_global_handlers call_remove_handlers globals)

end

section \<open>Invariants of a dispatch\<close>

text \<open>
  With the laws of \<^verbatim>\<open>delete_id\<close> and of the descriptor lists, a property is kept by
  the dispatch of a frame, whatever the application does in it; with the laws of
  the receive path also by a whole \<^verbatim>\<open>Dispatch\<close>.
\<close>

locale dispatch_invariant = handler_invariant +
  assumes closePendingFDs: "I d \<Longrightarrow> I (closePendingFDs d)"
    and delete_id: "I d \<Longrightarrow> I (snd (delete_id d i))"
    and pendingFDs: "I d \<Longrightarrow> I (d\<lparr>d_pendingFDs := fds\<rparr>)"
    and closedFDs: "I d \<Longrightarrow> I (d\<lparr>d_closedFDs := fds\<rparr>)"
    and takenFDs: "I d \<Longrightarrow> I (d\<lparr>d_takenFDs := fds\<rparr>)"
begin

lemma run_acts: "I (snd s) \<Longrightarrow> I (snd (run_acts xs s))"
proof (induction xs arbitrary: s)
  case (Cons x xs)
  have "I (snd (run_act x s))"
    using Cons.prems
    by (cases x; cases s) (auto simp: case_prod_beta Let_def run_api closedFDs takenFDs split: sum.splits)
  then show ?case using Cons.IH by simp
qed simp

lemma deliver: "I d \<Longrightarrow> I (snd (deliver A obj e d))"
  by (cases obj)
     (auto simp: log_delivery callback_Dispatch_def Unregister run_acts Registry_Dispatch split: pclass.splits)

lemma prepareFrame: "I d \<Longrightarrow> I (snd (prepareFrame d f))"
  by (auto simp: prepareFrame_def Let_def pendingFDs closedFDs split: option.splits)

lemma handleDisplayEvent: "I d \<Longrightarrow> I (snd (handleDisplayEvent d oc body))"
  by (auto simp: handleDisplayEvent_def Let_def case_prod_beta delete_id split: option.splits)

lemma dispatchFrame: "I d \<Longrightarrow> I (snd (dispatchFrame A d f))"
proof -
  assume "I d"
  then have p: "I (snd (prepareFrame d f))" by (rule prepareFrame)
  then show ?thesis
    by (cases "prepareFrame d f")
       (auto simp: dispatchFrame_def case_prod_beta Let_def handleDisplayEvent closedFDs deliver split: prepared.splits)
qed

lemma fail: "I d \<Longrightarrow> I (snd (fail d e))"
  by (auto simp: fail_def Let_def closePendingFDs split: option.splits)

end

text \<open>With reading a frame, it is kept by a whole dispatch.\<close>

locale connection_invariant = dispatch_invariant +
  assumes nextFrame: "nextFrame U d = Some (r, d') \<Longrightarrow> I d \<Longrightarrow> I d'"
begin

lemma Dispatch: "I d \<Longrightarrow> Dispatch U A d = Some (e, d') \<Longrightarrow> I d'"
proof -
  assume I: "I d" and r: "Dispatch U A d = Some (e, d')"
  show ?thesis
  proof (cases "nextFrame U d")
    case (Some x)
    then obtain fr d1 where x: "nextFrame U d = Some (fr, d1)" by (cases x) auto
    then have "I d1" using I by (rule nextFrame)
    then have "I (snd (fail (snd (dispatchFrame A d1 f)) err))" "I (snd (fail d1 err))" for f err
      by (simp_all add: fail dispatchFrame)
    then show ?thesis
      using r x I \<open>I d1\<close>
      by (auto simp: Dispatch_def case_prod_beta Let_def split: if_splits sum.splits) (metis snd_conv)+
  qed (use I r in \<open>auto simp: Dispatch_def split: if_splits\<close>)
qed

end

interpretation id_conn: connection_invariant id_inv
  by (unfold_locales;
      (erule id_inv_delete_id | erule (1) id_recv.nextFrame |
       simp add: id_inv_def Close_def Let_def case_prod_beta closePendingFDs_def UnregisterID_def))

interpretation tab_conn: connection_invariant tables_inv
  by (unfold_locales;
      (erule tables_inv_delete_id | erule (1) tab_recv.nextFrame | erule tables_inv_UnregisterID |
       simp add: tables_inv_def Close_def Let_def case_prod_beta closePendingFDs_def))

interpretation fd_api: handler_invariant "fds_conserved held" for held
  by unfold_locales (auto simp: fds_conserved_def UnregisterID_def Close_def Let_def case_prod_beta
      closePendingFDs_def live_fds_def add_ac)

section \<open>What a dispatch delivers\<close>

text \<open>Library calls deliver nothing, announce nothing and write nothing on a closed socket.\<close>

interpretation quiet_api: api_invariant "\<lambda>d. d_trace d = t \<and> globals d = G" for t G
  by unfold_locales (auto simp: op_defs Let_def case_prod_beta split: option.splits)

interpretation silent_api: api_invariant "\<lambda>d. cn_closed (d_conn d) \<and> sent_messages d = s" for s
  by unfold_locales
     (auto simp: op_defs Let_def case_prod_beta sent_messages_def conn_Write_closed conn_Close_def split: option.splits)

lemma run_acts_trace: "d_trace (snd (run_acts xs s)) = d_trace (snd s)"
proof (induction xs arbitrary: s)
  case (Cons x xs)
  have "d_trace (snd (run_act x s)) = d_trace (snd s)"
    using quiet_api.run_api
    by (cases x; cases s) (auto simp: case_prod_beta Let_def split: sum.splits)
  then show ?case using Cons.IH by simp
qed simp

fun global_delivery :: "u32 \<Rightarrow> string \<Rightarrow> u32 \<Rightarrow> globalHandler \<Rightarrow> delivery" where
  "global_delivery name iface version (UserHandler k) = ToGlobal k name version"
| "global_delivery name iface version (WrappedHandler k) =
     ToWrapped k \<lparr>ge_name = name, ge_interface = iface, ge_version = version\<rparr>"

lemma call_global_handlers_trace:
  assumes "globals d name = Some \<lparr>g_name = name, g_interface = iface, g_version = version\<rparr>"
  shows "d_trace (call_global_handlers A name version hs d) =
      d_trace d @ map (global_delivery name iface version) hs \<and>
    globals (call_global_handlers A name version hs d) = globals d"
  using assms
proof (induction hs arbitrary: d)
  case (Cons h hs)
  let ?d1 = "call_global_handler A name version h d"
  have "d_trace ?d1 = d_trace d @ [global_delivery name iface version h] \<and> globals ?d1 = globals d"
    using Cons.prems quiet_api.run_apis
    by (cases h) (simp_all add: FindGlobalByName_def Let_def log_delivery_def)
  then show ?case using Cons.IH [of ?d1] Cons.prems by simp
qed simp

section \<open>Properties\<close>

text \<open>The socket stays closed, so that every later send and every later read fails.\<close>

lemma closed_socket_fails:
  assumes "cn_closed (d_conn d)"
  shows "fst (sendmsgWithFDs d buf fds (map_option (\<lambda>(chk, p). run_check chk p) g)) \<noteq> None"
    and "\<exists>e d'. fill U d = Some (Some e, d')"
proof -
  have "run_check chk p d = (None, d1) \<Longrightarrow> d_conn d1 = d_conn d" for chk p d1
    by (cases chk; cases rule: claimDestroy_cases [of d p]) auto
  then show "fst (sendmsgWithFDs d buf fds (map_option (\<lambda>(chk, p). run_check chk p) g)) \<noteq> None"
    using assms
    by (auto simp: sendmsgWithFDs_def conn_Write_closed Let_def split: option.splits prod.splits)
  show "\<exists>e d'. fill U d = Some (Some e, d')"
    using assms by (auto simp: fill_def readChunk_def Let_def split: option.splits)
qed

text \<open>
  C28: a failed write ends the connection. When a send gets as far as the write and the write fails or
  is short, then whatever calls the application makes afterwards, nothing more is written,
  every further send returns an error, and no further bytes are read.
\<close>

theorem failed_write_ends_connection:
  assumes "\<not> d_closed d" "fds = [] \<or> d_unix d" "run_guard guard d = (None, d1)"
    and "sendmsgWithFDs d buf fds guard = (Some err, d')"
  shows "sent_messages (run_apis xs d') = sent_messages d' \<and>
    fst (sendmsgWithFDs (run_apis xs d') buf' fds' (map_option (\<lambda>(chk, p). run_check chk p) g)) \<noteq> None \<and>
    (\<exists>e d2. fill U (run_apis xs d') = Some (Some e, d2))"
proof -
  have "cn_closed (d_conn d')"
    by (cases rule: sendmsg_cases [of d buf fds guard]) (use assms in \<open>auto simp: conn_Close_def\<close>)
  then have "cn_closed (d_conn (run_apis xs d')) \<and> sent_messages (run_apis xs d') = sent_messages d'"
    using silent_api.run_apis [of d' "sent_messages d'" xs] by simp
  then show ?thesis using closed_socket_fails by blast
qed

text \<open>A short write: the socket takes three of eight bytes.\<close>

definition short_write :: display where
  "short_write = fresh_display\<lparr>d_conn := idle_conn\<lparr>cn_wres := [(3, None)]\<rparr>\<rparr>"

theorem failed_write_ends_connection_witness:
  "let d' = snd (sendmsgWithFDs short_write [1, 0, 0, 0, 0, 0, 8, 0] [] None)
   in sent_messages d' = [([1, 0, 0], [])] \<and>
      sent_messages (run_apis [ApiSync, ApiBindID 1 ''wl_shm'' 1] d') = sent_messages d'"
proof -
  let ?s = "sendmsgWithFDs short_write [1, 0, 0, 0, 0, 0, 8, 0] [] None"
  have e: "?s = (Some IoErrShortWrite, snd ?s)" "sent_messages (snd ?s) = [([1, 0, 0], [])]"
    by (simp_all add: sendmsgWithFDs_def short_write_def conn_Write_def idle_conn_def Let_def
        sent_messages_def conn_Close_def) (simp_all add: fresh_display_def)
  have "\<not> d_closed short_write" by (simp add: short_write_def fresh_display_def)
  then show ?thesis
    using failed_write_ends_connection [of short_write "[]" None short_write _ IoErrShortWrite "snd ?s",
        OF _ _ _ e(1), of "[ApiSync, ApiBindID 1 ''wl_shm'' 1]"] e(2)
    by (simp add: run_guard_def Let_def)
qed

text \<open>The handlers after a sequence of registrations.\<close>

lemma r_handlers_AddHandlers:
  "r_handlers (d_registry (fold (\<lambda>(i, h) d. AddHandler d i (Some h)) rs d)) iface =
     r_handlers (d_registry d) iface @ map snd (filter (\<lambda>(i, h). i = iface) rs)"
  "d_trace (fold (\<lambda>(i, h) d. AddHandler d i (Some h)) rs d) = d_trace d"
  "globals (fold (\<lambda>(i, h) d. AddHandler d i (Some h)) rs d) = globals d"
  by (induction rs arbitrary: d) (auto simp: AddHandler_def)

text \<open>
  C31: in which order the handlers of an announced global run. After any sequence of calls of \<^verbatim>\<open>AddHandler\<close>
  the event is stored under its name and handed first to the handlers of its interface and then to those
  of all interfaces, both in registration order, whatever the handlers do. So the order of
  the calls of \<^verbatim>\<open>AddHandler\<close> does not decide between the two groups, although its comment says
  that all handlers are called in registration order; and a global
  whose interface is named \<^verbatim>\<open>*\<close> is handed to each handler of all interfaces twice.
\<close>

theorem handleGlobal_order:
  "let d0 = fold (\<lambda>(i, h) d. AddHandler d i (Some h)) rs d; d1 = handleGlobal A d0 name iface version
   in d_trace d1 = d_trace d @ map (global_delivery name iface version)
        (r_handlers (d_registry d) iface @ map snd (filter (\<lambda>(i, h). i = iface) rs) @
         r_handlers (d_registry d) ''*'' @ map snd (filter (\<lambda>(i, h). i = ''*'') rs)) \<and>
      globals d1 = (globals d)(name \<mapsto> \<lparr>g_name = name, g_interface = iface, g_version = version\<rparr>)"
  by (simp add: handleGlobal_def Let_def call_global_handlers_trace r_handlers_AddHandlers)

text \<open>
  C14: an event for an object the client destroyed is dropped. No handler runs, the
  tables stay as they are, the descriptors of its signature are taken from the
  front of the queue and closed, so that the following events get theirs.
\<close>

theorem zombie_event_dropped:
  assumes "\<not> d_closed d" "f_object f \<noteq> displayObjectID" "objectAt d (f_object f) = Some (ZombieObj a)"
    and "eventSignature d (ZombieObj a) (f_object f) (f_opcode f) = Some sig"
    and "validateEventBody sig (f_body f) = None"
    and "length (d_pendingFDs d) = count_fd sig \<or> count_fd sig < length (d_pendingFDs d) \<and> unread d"
  shows "dispatchFrame A d f =
    (None, d\<lparr>d_pendingFDs := drop (count_fd sig) (d_pendingFDs d),
             d_closedFDs := d_closedFDs d @ filter (\<lambda>n. 0 \<le> n) (take (count_fd sig) (d_pendingFDs d))\<rparr>)"
proof -
  have c: "close_fds (map Some ns) = filter (\<lambda>n. 0 \<le> n) ns" for ns
    by (induction ns) (auto simp: close_fds_def)
  have u: "unread (d\<lparr>d_pendingFDs := x\<rparr>) = unread d" for x by (simp add: unread_def)
  have "prepareFrame d f =
      (PObject (ZombieObj a) (newEvent (f_object f) (f_opcode f) (f_body f) (map Some (take (count_fd sig) (d_pendingFDs d)))),
       d\<lparr>d_pendingFDs := drop (count_fd sig) (d_pendingFDs d)\<rparr>)"
    using assms by (auto simp: prepareFrame_def Let_def u)
  then show ?thesis by (simp add: dispatchFrame_def is_zombie_def newEvent_def c)
qed

text \<open>
  C13: an event for a live object is delivered to that object and to no other, once,
  with the body of its frame and exactly the descriptors of its signature, taken
  from the front of the queue in arrival order.
\<close>

theorem live_event_delivered:
  assumes "\<not> d_closed d" "f_object f \<noteq> displayObjectID" "objectAt d (f_object f) = Some (ProxyObj a)"
    and "eventSignature d (ProxyObj a) (f_object f) (f_opcode f) = Some sig"
    and "validateEventBody sig (f_body f) = None"
    and "length (d_pendingFDs d) = count_fd sig \<or> count_fd sig < length (d_pendingFDs d) \<and> unread d"
  shows "fst (dispatchFrame A d f) = None \<and>
    d_trace (snd (dispatchFrame A d f)) = d_trace d @
      [ToProxy a (newEvent (f_object f) (f_opcode f) (f_body f) (map Some (take (count_fd sig) (d_pendingFDs d))))]"
proof -
  let ?ev = "newEvent (f_object f) (f_opcode f) (f_body f) (map Some (take (count_fd sig) (d_pendingFDs d)))"
  let ?d1 = "d\<lparr>d_pendingFDs := drop (count_fd sig) (d_pendingFDs d)\<rparr>"
  have u: "unread (d\<lparr>d_pendingFDs := x\<rparr>) = unread d" for x by (simp add: unread_def)
  have p: "prepareFrame d f = (PObject (ProxyObj a) ?ev, ?d1)"
    using assms by (auto simp: prepareFrame_def Let_def u)
  have "d_trace (snd (deliver A (ProxyObj a) ?ev ?d1)) = d_trace d @ [ToProxy a ?ev]"
    by (simp add: run_acts_trace log_delivery_def callback_Dispatch_def Unregister_def split: pclass.split)
  then show ?thesis
    using assms(3) by (simp add: dispatchFrame_def p is_zombie_def case_prod_beta Let_def)
qed

text \<open>A display with one object under ID 3, whose event 0 has a descriptor and a word.\<close>

definition fd_display :: "object \<Rightarrow> display" where
  "fd_display obj = one_proxy_display\<lparr>d_objects := Store (d_objects one_proxy_display) 3 obj,
     d_signatures := [(3, 0) \<mapsto> ''fd,uint,''], d_pendingFDs := [5]\<rparr>"

definition idle_app :: app where
  "idle_app = \<lparr>on_event = (\<lambda>_ _ _. []), on_global = (\<lambda>_ _ _ _. []), on_wrapped = (\<lambda>_ _ _. []),
     on_remove = (\<lambda>_ _ _. [])\<rparr>"

definition sample_frame :: receivedFrame where
  "sample_frame = \<lparr>f_object = 3, f_opcode = 0, f_body = [1, 0, 0, 0]\<rparr>"

lemma fd_display_facts:
  "\<not> d_closed (fd_display obj)" "f_object sample_frame \<noteq> displayObjectID" "objectAt (fd_display obj) (f_object sample_frame) = Some obj"
  "eventSignature (fd_display (ZombieObj 0)) (ZombieObj 0) (f_object sample_frame) (f_opcode sample_frame) = Some ''fd,uint,''"
  "eventSignature (fd_display (ProxyObj 0)) (ProxyObj 0) (f_object sample_frame) (f_opcode sample_frame) = Some ''fd,uint,''"
  "validateEventBody ''fd,uint,'' (f_body sample_frame) = None" "length (d_pendingFDs (fd_display obj)) = count_fd ''fd,uint,''"
  by (simp_all add: fd_display_def sample_frame_def displayObjectID_def eventSignature_def validate_eval display_eval)

theorem zombie_event_dropped_witness:
  "fst (dispatchFrame idle_app (fd_display (ZombieObj 0)) sample_frame) = None \<and>
   d_closedFDs (snd (dispatchFrame idle_app (fd_display (ZombieObj 0)) sample_frame)) = [5]"
  using zombie_event_dropped [OF fd_display_facts(1-4,6) disjI1, OF fd_display_facts(7), of idle_app]
  by (simp add: fd_display_def display_eval)

theorem live_event_delivered_witness:
  "d_trace (snd (dispatchFrame idle_app (fd_display (ProxyObj 0)) sample_frame)) = [ToProxy 0 (newEvent 3 0 [1, 0, 0, 0] [Some 5])]"
  using live_event_delivered [OF fd_display_facts(1-3,5,6) disjI1, OF fd_display_facts(7), of idle_app]
  by (simp add: fd_display_def sample_frame_def display_eval)

lemma delete_id_error:
  "delete_id d i = (Some err, d') \<Longrightarrow> d_trace d' = d_trace d \<and> as_ProtocolError err"
  by (auto simp: delete_id_def Let_def split: if_splits)

lemma handleDisplayEvent_error:
  "handleDisplayEvent d oc body = (Some err, d') \<Longrightarrow>
   d_trace d' = d_trace d \<and> (as_ProtocolError err \<or> (\<exists>ob code msg. err = DisplayError ob code msg))"
  by (auto simp: handleDisplayEvent_def Let_def case_prod_beta dest: delete_id_error split: if_splits option.splits)

text \<open>
  A frame that is refused is delivered to nobody, and its error is a protocol
  error, the error that the compositor reported, or the closing of the display.
\<close>

lemma refused_frame_not_delivered:
  assumes "dispatchFrame A d f = (Some err, d')"
  shows "d_trace d' = d_trace d \<and>
    (as_ProtocolError err \<or> (\<exists>ob code msg. err = DisplayError ob code msg) \<or> err = NetErrClosed)"
proof -
  obtain pr d1 where p: "prepareFrame d f = (pr, d1)" by (cases "prepareFrame d f")
  have t: "d_trace d1 = d_trace d"
    using p by (auto simp: prepareFrame_def Let_def split: if_splits option.splits)
  show ?thesis
  proof (cases pr)
    case (PErr e)
    then have "as_ProtocolError e \<or> e = NetErrClosed"
      using p by (auto simp: prepareFrame_def Let_def split: if_splits option.splits)
    then show ?thesis using assms p PErr t by (auto simp: dispatchFrame_def)
  next
    case PDisplay
    then have "handleDisplayEvent d1 (f_opcode f) (f_body f) = (Some err, d')"
      using assms p by (simp add: dispatchFrame_def)
    from handleDisplayEvent_error [OF this] show ?thesis using t by auto
  next
    case (PObject obj ev)
    then show ?thesis using assms p by (simp add: dispatchFrame_def case_prod_beta Let_def)
  qed
qed

text \<open>
  C38: the error event of the compositor reaches the caller of \<^verbatim>\<open>Dispatch\<close> with the object, the
  code and the message that were sent.
\<close>

theorem display_error_reported:
  assumes "body_wire idOf [GUint32 ob, GUint32 code, GString msg] = Some body" "HeaderSize + length body \<le> 0xffff"
    and "\<not> d_closed d" "d_pendingFDs d = [] \<or> unread d"
  shows "dispatchFrame A d \<lparr>f_object = displayObjectID, f_opcode = 0, f_body = body\<rparr> =
    (Some (DisplayError ob code msg), d)"
proof -
  let ?gs = "[GUint32 ob, GUint32 code, GString msg]" and ?e = "newEvent displayObjectID 0 body []"
  have ty: "map goval_type ?gs = [TWord, TWord, TString]" by (simp add: goval_type_def)
  have len: "length body < 2 ^ 32" using assms(2) by simp
  have "sig_types ''object,uint,string,'' = Some [TWord, TWord, TString]" by (simp add: validate_eval)
  then have v: "validateEventBody ''object,uint,string,'' body = None"
    using body_wire_encoding [OF assms(1), unfolded ty] validate_loop_iff [of 0 body "''object,uint,string,''"]
    by (simp add: validateEventBody_def del: arg_encoding.simps body_encoding.simps)
  have "fst (read_args [TWord, TWord, TString] ?e) = [VWord ob, VWord code, VString msg]"
    using read_args_wire [OF assms(1), of ?e "[]"] len
    unfolding ty by (simp add: newEvent_def goval_type_def goval_value_def list_all2_Cons2)
  then have "fst (Event_Uint32 ?e) = ob" "fst (Event_Uint32 (snd (Event_Uint32 ?e))) = code"
      "fst (Event_String (snd (Event_Uint32 (snd (Event_Uint32 ?e))))) = msg"
    by (simp_all add: case_prod_beta Let_def)
  then show ?thesis
    using assms(3,4) v by (auto simp: dispatchFrame_def prepareFrame_def handleDisplayEvent_def case_prod_beta Let_def)
qed

theorem display_error_reported_witness:
  "dispatchFrame idle_app fresh_display \<lparr>f_object = displayObjectID, f_opcode = 0,
       f_body = [3, 0, 0, 0, 1, 0, 0, 0, 3, 0, 0, 0, 110, 111, 0, 0]\<rparr> = (Some (DisplayError 3 1 ''no''), fresh_display)"
  by (rule display_error_reported [where idOf = "\<lambda>_. 0"]) (simp_all add: wire_eval fresh_display_def)

end
