(* ===== verification/Accounting.thy ===== *)
theory Accounting
  imports Dispatch
begin

text \<open>
  Where received descriptors go. Every descriptor that a read delivered is in
  exactly one place: the connection's queue, the event in flight, the log of
  closed descriptors or the hands of the application. The accounting holds for
  any handler; the last section shows which of these places a dispatch can leave
  non-empty.
\<close>

section \<open>Taking descriptors out of an event\<close>

definition event_fds :: "event \<Rightarrow> fd multiset" where
  "event_fds e = mset (close_fds (ev_fds e))"

lemma close_fds_simps [simp]:
  "close_fds [] = []" "close_fds (f # fs) = fst (OwnedFD_Close f) @ close_fds fs"
  "close_fds (fs @ gs) = close_fds fs @ close_fds gs"
  by (simp_all add: close_fds_def)

lemma close_fds_map_Some [simp]: "close_fds (map Some ns) = filter (\<lambda>n. 0 \<le> n) ns"
  by (induction ns) auto

lemma event_fds_FD:
  "Event_FD e = (f, e') \<Longrightarrow> event_fds e = mset (fst (OwnedFD_Close f)) + event_fds e'"
proof -
  assume r: "Event_FD e = (f, e')"
  show ?thesis
  proof (cases "ev_fdIndex e < length (ev_fds e)")
    case True
    let ?i = "ev_fdIndex e" and ?fs = "ev_fds e"
    have "mset (close_fds ?fs) =
        mset (close_fds (take ?i ?fs)) + mset (fst (OwnedFD_Close (?fs ! ?i))) + mset (close_fds (drop (Suc ?i) ?fs))"
      by (subst id_take_nth_drop [OF True]) (simp del: append_take_drop_id)
    moreover have "mset (close_fds (?fs[?i := None])) =
        mset (close_fds (take ?i ?fs)) + mset (close_fds (drop (Suc ?i) ?fs))"
      by (simp add: upd_conv_take_nth_drop [OF True])
    ultimately show ?thesis using r True by (auto simp: Event_FD_def event_fds_def)
  qed (use r in \<open>auto simp: Event_FD_def\<close>)
qed

lemma Take_closes: "Take f = (Inr n, g) \<Longrightarrow> fst (OwnedFD_Close f) = [n]"
  by (cases f) (auto split: if_splits)

lemma Take_none: "Take f = (Inl err, g) \<Longrightarrow> fst (OwnedFD_Close f) = []"
  by (cases f) (auto split: if_splits)

lemma run_act_conserved:
  assumes "fds_conserved (event_fds e) d" "run_act x (e, d) = (e', d')"
  shows "fds_conserved (event_fds e') d'"
proof (cases x)
  case TakeFD
  obtain f e1 where f: "Event_FD e = (f, e1)" by (cases "Event_FD e")
  note bal = event_fds_FD [OF f]
  show ?thesis
  proof (cases "fst (Take f)")
    case (Inl err)
    then have "fst (OwnedFD_Close f) = []" using Take_none [of f err "snd (Take f)"] by (cases "Take f") simp
    then show ?thesis using assms TakeFD f Inl bal by (cases "Take f") (auto simp: fds_conserved_def)
  next
    case (Inr n)
    then have "fst (OwnedFD_Close f) = [n]" using Take_closes [of f n "snd (Take f)"] by (cases "Take f") simp
    then show ?thesis using assms TakeFD f Inr bal by (cases "Take f") (auto simp: fds_conserved_def)
  qed
next
  case CloseFD
  obtain f e1 where f: "Event_FD e = (f, e1)" by (cases "Event_FD e")
  show ?thesis using assms CloseFD f event_fds_FD [OF f] by (auto simp: fds_conserved_def)
next
  case (Call y)
  then show ?thesis using assms fd_api.run_api by auto
qed

lemma run_acts_conserved:
  "fds_conserved (event_fds (fst s)) (snd s) \<Longrightarrow>
   fds_conserved (event_fds (fst (run_acts xs s))) (snd (run_acts xs s))"
proof (induction xs arbitrary: s)
  case (Cons x xs)
  have "fds_conserved (event_fds (fst (run_act x s))) (snd (run_act x s))"
    using run_act_conserved [of "fst s" "snd s" x] Cons.prems by (cases "run_act x s") simp
  then show ?case using Cons.IH by simp
qed simp

lemma accessor_fds [simp]:
  "ev_fds (snd (Event_Uint32 e)) = ev_fds e" "ev_fds (snd (Event_String e)) = ev_fds e"
  by (simp_all add: Event_Uint32_def Event_String_def Let_def case_prod_beta)

lemma deliver_conserved:
  assumes "fds_conserved (event_fds e) d"
  shows "fds_conserved (event_fds (fst (deliver A obj e d))) (snd (deliver A obj e d))"
proof (cases obj)
  case RegistryObj
  have "event_fds (fst (Registry_Dispatch A e d)) = event_fds e"
    by (simp add: Registry_Dispatch_def case_prod_beta Let_def event_fds_def)
  then show ?thesis using RegistryObj fd_api.Registry_Dispatch [OF assms] by simp
next
  case (ProxyObj a)
  have "fds_conserved (event_fds e) (log_delivery d x)" for x by (rule fd_api.log_delivery [OF assms])
  then show ?thesis
    using ProxyObj run_acts_conserved [of "(e, log_delivery d (ToProxy a e))"]
    by (auto simp: callback_Dispatch_def split: pclass.splits)
qed (use assms in auto)

section \<open>A whole dispatch\<close>

lemma prepareFrame_conserved:
  assumes "fds_conserved {#} d"
  shows "case prepareFrame d f of
      (PObject obj ev, d1) \<Rightarrow> fds_conserved (event_fds ev) d1
    | (_, d1) \<Rightarrow> fds_conserved {#} d1"
proof -
  have fds: "mset (close_fds (ev_fds (newEvent n c b (map Some ns)))) = live_fds ns"
      "mset (close_fds (ev_fds (newEvent n c b []))) = {#}" for n c b ns
    by (simp_all add: newEvent_def live_fds_def)
  have nil: "close_fds (ev_fds (newEvent n c b [])) = []" for n c b by (simp add: newEvent_def)
  have "live_fds (d_pendingFDs d) =
      live_fds (drop c (d_pendingFDs d)) + live_fds (take c (d_pendingFDs d))" for c
    by (metis append_take_drop_id live_fds_simps(3) add.commute)
  note split = this [symmetric]
  show ?thesis
    using assms
    by (auto simp: prepareFrame_def Let_def event_fds_def fds nil fds_conserved_def split add_ac
        split: option.splits)
qed

lemma dispatchFrame_conserved:
  assumes "fds_conserved {#} d"
  shows "fds_conserved {#} (snd (dispatchFrame A d f))"
proof -
  obtain pr d1 where p: "prepareFrame d f = (pr, d1)" by (cases "prepareFrame d f")
  note pc = prepareFrame_conserved [OF assms, of f, unfolded p, simplified]
  show ?thesis
  proof (cases pr)
    case (PErr err)
    then show ?thesis using pc p by (simp add: dispatchFrame_def)
  next
    case PDisplay
    have "fds_conserved {#} (snd (delete_id d1 i)) = fds_conserved {#} d1" for i
      by (rule fds_conserved_cong) (simp add: frame_simps)
    then show ?thesis
      using pc p PDisplay
      by (auto simp: dispatchFrame_def handleDisplayEvent_def Let_def case_prod_beta split: option.splits)
  next
    case (PObject obj ev)
    let ?r = "if is_zombie obj \<or> objectAt d1 (f_object f) \<noteq> Some obj then (ev, d1) else deliver A obj ev d1"
    have "fds_conserved (event_fds (fst ?r)) (snd ?r)"
      using pc PObject deliver_conserved [of ev d1 A obj] by auto
    then have "fds_conserved {#} ((snd ?r)\<lparr>d_closedFDs := d_closedFDs (snd ?r) @ close_fds (ev_fds (fst ?r))\<rparr>)"
      by (simp add: fds_conserved_def event_fds_def add_ac)
    then show ?thesis using p PObject by (simp add: dispatchFrame_def case_prod_beta Let_def)
  qed
qed

lemma fail_conserved: "fds_conserved {#} d \<Longrightarrow> fds_conserved {#} (snd (fail d e))"
  by (auto simp: fail_def Let_def split: option.splits)

lemma Dispatch_conserved:
  assumes "fds_conserved {#} d" "Dispatch U A d = Some (e, d')"
  shows "fds_conserved {#} d'"
proof (cases "nextFrame U d")
  case (Some x)
  then obtain fr d1 where x: "nextFrame U d = Some (fr, d1)" by (cases x) auto
  then have d1: "fds_conserved {#} d1" using assms(1) by (rule fd_recv.nextFrame)
  then have "fds_conserved {#} (snd (fail (snd (dispatchFrame A d1 f)) err))"
      "fds_conserved {#} (snd (fail d1 err))" for f err
    by (simp_all add: fail_conserved dispatchFrame_conserved)
  then show ?thesis
    using assms x d1
    by (auto simp: Dispatch_def case_prod_beta Let_def split: if_splits sum.splits) (metis snd_conv)+
qed (use assms in \<open>auto simp: Dispatch_def split: if_splits\<close>)

section \<open>Descriptors after a failure\<close>

lemma fail_ProtocolError:
  "as_ProtocolError err \<or> errors_Is err IoErrUnexpectedEOF \<Longrightarrow> d_pendingFDs (snd (fail d (Some err))) = []"
  by (auto simp: fail_def Let_def closePendingFDs_def)

lemma fail_fst [simp]: "fst (fail d e) = e"
  by (simp add: fail_def Let_def split: option.splits)

lemma Dispatch_error_closes:
  assumes "Dispatch U A d = Some (Some err, d')" "as_ProtocolError err \<or> errors_Is err IoErrUnexpectedEOF"
  shows "d_pendingFDs d' = []"
proof -
  have "err \<noteq> NetErrClosed" using assms(2) by auto
  then show ?thesis
    using assms fail_ProtocolError [OF assms(2)]
    by (auto simp: Dispatch_def case_prod_beta Let_def split: if_splits option.splits sum.splits)
       (metis fail_fst fst_conv snd_conv)+
qed

end
