(* ===== verification/Loop.thy ===== *)
theory Loop
  imports Accounting
begin

text \<open>
  The event loops \<^verbatim>\<open>Roundtrip\<close> (\<^verbatim>\<open>client.go\<close>) and \<^verbatim>\<open>RunTill\<close> (\<^verbatim>\<open>core.go\<close>). Every successful
  \<^verbatim>\<open>Dispatch\<close> takes one message off the byte stream, and no handler can put bytes
  back, so the loops are terminating functions of the stream to come; \<open>None\<close> is a
  loop that waits for a read that does not arrive.
\<close>

section \<open>A dispatch consumes one message\<close>

interpretation str_disp: dispatch_invariant "\<lambda>d. stream d = s" for s
  by unfold_locales
     (auto simp: stream_def op_defs Let_def case_prod_beta split: option.splits object.splits)

lemma Dispatch_stream:
  assumes "Dispatch U A d = Some (None, d')"
  obtains f d1 where "nextFrame U d = Some (Inr f, d1)" "\<not> d_closed d1" "dispatchFrame A d1 f = (None, d')"
    "stream d' = drop (HeaderSize + length (f_body f)) (stream d)"
    "HeaderSize + length (f_body f) \<le> length (stream d)"
proof -
  obtain r d1 where n: "nextFrame U d = Some (r, d1)" "\<not> d_closed d1"
    using assms by (auto simp: Dispatch_def split: if_splits option.splits)
  then obtain f where f: "r = Inr f" "dispatchFrame A d1 f = (None, d')"
    using assms
    by (auto simp: Dispatch_def Let_def case_prod_beta fail_def split: if_splits option.splits sum.splits)
       (metis prod.collapse)
  have "stream d' = stream d1" using str_disp.dispatchFrame [of d1 "stream d1" A f] f by simp
  then show thesis using that n f nextFrame_stream by simp
qed

lemma Dispatch_consumes:
  "Dispatch U A d = Some (None, d') \<Longrightarrow> length (stream d') < length (stream d)"
  by (erule Dispatch_stream) (simp add: HeaderSize_def)

section \<open>The loops\<close>

text \<open>The loop of \<^verbatim>\<open>Roundtrip\<close>, which waits until the callback is no longer registered.\<close>

function roundtrip_loop :: "unix_pkg \<Rightarrow> app \<Rightarrow> addr \<Rightarrow> display \<Rightarrow> (error option \<times> display) option" where
  "roundtrip_loop U A callback d =
     (case Dispatch U A d of
        None \<Rightarrow> None
      | Some (Some err, d1) \<Rightarrow> Some (Some err, d1)
      | Some (None, d1) \<Rightarrow>
          if objectAt d1 (pid d1 callback) = None then Some (None, d1) else roundtrip_loop U A callback d1)"
  by pat_completeness auto
termination
  by (relation "measure (\<lambda>(U, A, c, d). length (stream d))") (auto dest: Dispatch_consumes)

declare roundtrip_loop.simps [simp del]

definition Roundtrip :: "unix_pkg \<Rightarrow> app \<Rightarrow> display \<Rightarrow> (error option \<times> display) option" where
  "Roundtrip U A d =
     (case Sync d of
        (Inl err, d1) \<Rightarrow> Some (Some err, d1)
      | (Inr callback, d1) \<Rightarrow> roundtrip_loop U A callback d1)"

function runtill_loop :: "unix_pkg \<Rightarrow> app \<Rightarrow> object \<Rightarrow> display \<Rightarrow> (error option \<times> display) option" where
  "runtill_loop U A obj d =
     (case Dispatch U A d of
        None \<Rightarrow> None
      | Some (Some err, d1) \<Rightarrow> Some (Some err, d1)
      | Some (None, d1) \<Rightarrow>
          if proxyAt d1 (objID d1 obj) = None then Some (None, d1) else runtill_loop U A obj d1)"
  by pat_completeness auto
termination
  by (relation "measure (\<lambda>(U, A, c, d). length (stream d))") (auto dest: Dispatch_consumes)

declare runtill_loop.simps [simp del]

definition RunTill :: "unix_pkg \<Rightarrow> app \<Rightarrow> object \<Rightarrow> display \<Rightarrow> (error option \<times> display) option" where
  "RunTill U A obj d =
     (if cx_closed (d_context d) then Some (Some (Errorf ''context is closed''), d)
      else case obj of
             ProxyObj a \<Rightarrow>
               if p_class (d_heap d a) = CallbackClass then Roundtrip U A d else runtill_loop U A obj d
           | _ \<Rightarrow> runtill_loop U A obj d)"

section \<open>The state the receive path leaves alone\<close>

definition core :: "display \<Rightarrow> _" where
  "core d = ((d_objects d, d_context d, d_heap d, d_brk d), (d_registry d, d_signatures d, d_trace d),
     (d_nextID d, d_freeIDs d, d_retiredIDs d), (d_closed d, d_unix d, d_takenFDs d, d_sentClosed d),
     (cn_closed (d_conn d), cn_wres (d_conn d), cn_out (d_conn d)))"

interpretation core_recv: receive_invariant "\<lambda>d. core d = c" for c
  by unfold_locales (auto simp: core_def queueFDs_def)

text \<open>
  A dispatch on a connection whose next message is \<open>f\<close>: the frame is \<open>f\<close>, and it is
  handled in a state that differs from the one before in the receive fields only.
\<close>

lemma Dispatch_next:
  assumes "clean U d" "\<not> d_closed d" "stream d = message_bytes f @ rest" "accepts d f"
  obtains d1 where "Dispatch U A d = Some (let (err, d2) = dispatchFrame A d1 f in fail d2 err)"
    "core d1 = core d" "clean U d1" "stream d1 = rest" "fd_stream U d1 = fd_stream U d"
    "d_maxMsgLen d1 = d_maxMsgLen d"
proof -
  obtain d1 where d1: "nextFrame U d = Some (Inr f, d1)" "stream d1 = rest" "clean U d1"
      "fd_stream U d1 = fd_stream U d" "d_maxMsgLen d1 = d_maxMsgLen d" "d_closed d1 = d_closed d"
    by (rule nextFrame_message [OF assms(1,3,4)])
  have "core d1 = core d" using core_recv.nextFrame [OF d1(1)] by blast
  then show thesis
    using that d1 assms(2) by (simp add: Dispatch_def case_prod_beta Let_def)
qed

section \<open>A roundtrip completes\<close>

definition done_frame :: "u32 \<Rightarrow> u32 \<Rightarrow> receivedFrame" where
  "done_frame i v = \<lparr>f_object = i, f_opcode = 0, f_body = le32 v\<rparr>"

definition sync_frame :: "u32 \<Rightarrow> receivedFrame" where
  "sync_frame i = \<lparr>f_object = displayObjectID, f_opcode = 0, f_body = le32 i\<rparr>"

lemma wf_done_frame [simp]: "wf_frame (done_frame i v)" "frame_size (done_frame i v) = 12"
  by (simp_all add: wf_frame_def done_frame_def frame_size_def HeaderSize_def)

text \<open>The done event of a registered callback removes it from both tables.\<close>

lemma dispatchFrame_done:
  assumes "\<not> d_closed d" "d_pendingFDs d = []" "objectAt d i = Some (ProxyObj a)" "pid d a = i"
    and "i \<noteq> displayObjectID" "p_class (d_heap d a) = CallbackClass"
    and "p_sig (d_heap d a) = Some callback_EventSignature"
  shows "dispatchFrame A d (done_frame i v) =
    (None, Unregister (log_delivery d (ToProxy a (newEvent i 0 (le32 v) []))) (Some a))"
proof -
  have v: "validateEventBody ''uint,'' (le32 v) = None" by code_simp
  have "prepareFrame d (done_frame i v) = (PObject (ProxyObj a) (newEvent i 0 (le32 v) []), d)"
    using assms v
    by (simp add: prepareFrame_def done_frame_def eventSignature_def callback_EventSignature_def)
  then show ?thesis
    using assms
    by (simp add: dispatchFrame_def done_frame_def is_zombie_def callback_Dispatch_def newEvent_def
        log_delivery_def Unregister_def)
qed

text \<open>What \<^verbatim>\<open>Sync\<close> does on an open connection: one message, one registered callback.\<close>

lemma sync_message:
  "encodeRequest idOf displayObjectID 0 [GUint32 i] [] = Inr (message_bytes (sync_frame i))"
  by (simp add: encodeRequest_Inr goval_wire_def sync_frame_def HeaderSize_def)

lemma Sync_ok:
  assumes "\<not> d_closed d" "\<not> cx_closed (d_context d)" "\<not> cn_closed (d_conn d)" "cn_wres (d_conn d) = []"
    and "allocateID d = (i, d0)" "i \<noteq> 0"
  obtains d' where "Sync d = (Inr (d_brk d), d')" "pid d' (d_brk d) = i"
    "objectAt d' i = Some (ProxyObj (d_brk d))" "proxyAt d' i = Some (d_brk d)"
    "d_heap d' (d_brk d) = callbackObject i (Some (cx_ref (d_context d)))"
    "sent_messages d' = sent_messages d @ [(message_bytes (sync_frame i), [])]"
    "d_pendingFDs d' = d_pendingFDs d" "d_maxMsgLen d' = d_maxMsgLen d" "d_closed d' = d_closed d"
    "clean U d' = clean U d" "fd_stream U d' = fd_stream U d" "stream d' = stream d" "d_trace d' = d_trace d"
    "id_state d' = id_state d0" "\<forall>j. j \<noteq> i \<longrightarrow> objectAt d' j = objectAt d j"
proof -
  let ?a = "d_brk d"
  have d0: "d0 = d\<lparr>d_nextID := d_nextID d0, d_freeIDs := d_freeIDs d0, d_retiredIDs := d_retiredIDs d0\<rparr>"
    using assms(5) by (auto simp: allocateID_def Let_def split: if_splits)
  let ?cb = "callbackObject i (Some (cx_ref (d_context d)))"
  have cb: "p_id ?cb = i" "p_context ?cb = Some (cx_ref (d_context d))"
    by (simp_all add: callbackObject_def BaseProxy_def)
  let ?d2 = "d0\<lparr>d_brk := Suc ?a, d_heap := (d_heap d)(?a := ?cb)\<rparr>"
  let ?d3 = "Register ?d2 (Some ?a)"
  let ?c = "(d_conn d)\<lparr>cn_out := cn_out (d_conn d) @ [(message_bytes (sync_frame i), [])]\<rparr>"
  note f0 = arg_cong [OF d0, of d_brk] arg_cong [OF d0, of d_context] arg_cong [OF d0, of d_heap]
    arg_cong [OF d0, of d_conn] arg_cong [OF d0, of d_closed] arg_cong [OF d0, of d_pendingFDs]
    arg_cong [OF d0, of d_maxMsgLen] arg_cong [OF d0, of d_unix] arg_cong [OF d0, of d_readErr]
    arg_cong [OF d0, of d_rbuf] arg_cong [OF d0, of d_rpos] arg_cong [OF d0, of d_trace] arg_cong [OF d0, of d_objects]
  note f0 = f0 [simplified]
  have send: "Display_SendRequest ?d3 displayObjectID 0 [GUint32 i] = (None, ?d3\<lparr>d_conn := ?c\<rparr>)"
    using assms by (simp add: op_defs sync_message sendmsgWithFDs_def conn_Write_def f0 cb)
  have s: "Sync d = (Inr ?a, ?d3\<lparr>d_conn := ?c\<rparr>)"
    using send by (simp add: Sync_def assms(5) Let_def f0 displayObjectID_def)
  show thesis
    by (rule that [OF s])
       (use assms cb in \<open>simp_all add: Register_def f0 sent_messages_def clean_def fd_stream_def stream_def id_state_def\<close>)
qed

text \<open>
  The first \<open>n\<close> turns of the loop, when each dispatch succeeds and leaves the callback registered.
\<close>

fun waits :: "unix_pkg \<Rightarrow> app \<Rightarrow> addr \<Rightarrow> nat \<Rightarrow> display \<Rightarrow> display option" where
  "waits U A cb 0 d = Some d"
| "waits U A cb (Suc n) d =
     (case Dispatch U A d of
        Some (None, d1) \<Rightarrow> if objectAt d1 (pid d1 cb) = None then None else waits U A cb n d1
      | _ \<Rightarrow> None)"

lemma roundtrip_waits: "waits U A cb n d = Some d2 \<Longrightarrow> roundtrip_loop U A cb d = roundtrip_loop U A cb d2"
proof (induction n arbitrary: d)
  case (Suc n)
  then obtain d1 where "Dispatch U A d = Some (None, d1)" "objectAt d1 (pid d1 cb) \<noteq> None" "waits U A cb n d1 = Some d2"
    by (auto split: option.splits if_splits)
  then show ?case using Suc.IH by (subst roundtrip_loop.simps) auto
qed simp

text \<open>The loop ends without an error only after the turn that leaves the callback unregistered.\<close>

lemma roundtrip_loop_returns:
  "roundtrip_loop U A cb d = Some (None, d') \<Longrightarrow>
   \<exists>k dk. waits U A cb k d = Some dk \<and> Dispatch U A dk = Some (None, d') \<and> objectAt d' (pid d' cb) = None"
proof (induction U A cb d rule: roundtrip_loop.induct)
  case (1 U A cb d)
  then obtain d1 where d1: "Dispatch U A d = Some (None, d1)"
    by (subst (asm) (2) roundtrip_loop.simps) (auto split: option.splits)
  show ?case
  proof (cases "objectAt d1 (pid d1 cb) = None")
    case True
    then have "d' = d1" using "1.prems" d1 by (subst (asm) roundtrip_loop.simps) simp
    then show ?thesis using d1 True by (intro exI [of _ 0] exI [of _ d]) simp
  next
    case False
    then have "roundtrip_loop U A cb d1 = Some (None, d')"
      using "1.prems" d1 by (subst (asm) roundtrip_loop.simps) auto
    then obtain k dk where "waits U A cb k d1 = Some dk" "Dispatch U A dk = Some (None, d')" "objectAt d' (pid d' cb) = None"
      using "1.IH" [OF d1] False by auto
    then show ?thesis using d1 False by (intro exI [of _ "Suc k"] exI [of _ dk]) simp
  qed
qed

text \<open>The turn in which the done event arrives.\<close>

lemma roundtrip_done:
  assumes "clean U d" "\<not> d_closed d" "fd_stream U d = []" "12 \<le> unat (maxMessageSize d)"
    and "objectAt d i = Some (ProxyObj a)" "proxyAt d i = Some a" "d_heap d a = callbackObject i c" "i \<noteq> displayObjectID"
    and "stream d = message_bytes (done_frame i v) @ rest"
  obtains d' where "roundtrip_loop U A a d = Some (None, d')" "objectAt d' i = None" "proxyAt d' i = None"
    "stream d' = rest" "sent_messages d' = sent_messages d"
    "d_trace d' = d_trace d @ [ToProxy a (newEvent i 0 (le32 v) [])]"
proof -
  let ?f = "done_frame i v"
  have acc: "accepts d ?f" using assms(4) by (auto simp: accepts_def maxMessageSize_def)
  obtain d2 where d2: "Dispatch U A d = Some (let (err, d3) = dispatchFrame A d2 ?f in fail d3 err)"
      "core d2 = core d" "stream d2 = rest" "fd_stream U d2 = fd_stream U d"
    by (rule Dispatch_next [OF assms(1,2,9) acc])
  let ?d3 = "Unregister (log_delivery d2 (ToProxy a (newEvent i 0 (le32 v) []))) (Some a)"
  have c: "d_objects d2 = d_objects d" "d_heap d2 = d_heap d" "d_closed d2 = d_closed d"
      "d_context d2 = d_context d" "d_trace d2 = d_trace d" "sent_messages d2 = sent_messages d"
    using d2(2) by (simp_all add: core_def sent_messages_def)
  have "dispatchFrame A d2 ?f = (None, ?d3)"
    by (rule dispatchFrame_done)
       (use c d2 assms in \<open>simp_all add: callbackObject_def BaseProxy_def fd_stream_def\<close>)
  then have "Dispatch U A d = Some (None, ?d3)" using d2(1) by (simp add: fail_def)
  moreover have pid: "pid d2 a = i" using c assms(7) by (simp add: callbackObject_def BaseProxy_def)
  then have g: "objectAt ?d3 i = None" "proxyAt ?d3 i = None" "pid ?d3 a = i" "stream ?d3 = rest"
      "sent_messages ?d3 = sent_messages d" "d_trace ?d3 = d_trace d @ [ToProxy a (newEvent i 0 (le32 v) [])]"
    using c assms d2 by (simp_all add: Unregister_def log_delivery_def stream_def sent_messages_def)
  ultimately have "roundtrip_loop U A a d = Some (None, ?d3)" by (simp add: roundtrip_loop.simps [of U A a d])
  then show thesis using that g by blast
qed

section \<open>Properties\<close>

text \<open>
  C22: a dispatch that succeeds takes exactly one message off the byte stream: the
  frame it handled is the first message of the stream, and the stream that is left
  begins right behind it, whatever the handlers do. The event loops therefore end
  on every finite input.
\<close>

theorem Dispatch_one_message:
  assumes "Dispatch U A d = Some (None, d')"
  shows "\<exists>f d1. nextFrame U d = Some (Inr f, d1) \<and> dispatchFrame A d1 f = (None, d') \<and>
    HeaderSize + length (f_body f) \<le> length (stream d) \<and>
    stream d' = drop (HeaderSize + length (f_body f)) (stream d)"
  using assms by (elim Dispatch_stream) blast

text \<open>A connection that has received a message that frees ID 3.\<close>

definition delete_id_frame :: "u32 \<Rightarrow> receivedFrame" where
  "delete_id_frame i = \<lparr>f_object = displayObjectID, f_opcode = 1, f_body = le32 i\<rparr>"

definition received :: "receivedFrame list \<Rightarrow> display" where
  "received fs = fresh_display\<lparr>d_rbuf := concat (map message_bytes fs), d_nextID := 4\<rparr>"

lemma received_clean: "clean U (received fs)" "stream (received fs) = concat (map message_bytes fs)"
    "fd_stream U (received fs) = []" "unat (maxMessageSize (received fs)) = 2 ^ 20"
  by (simp_all add: received_def clean_def stream_def fd_stream_def fresh_display_def idle_conn_def
      maxMessageSize_def DefaultMaxMessageSize_def)

lemma dispatchFrame_delete_id:
  "d_pendingFDs d = [] \<Longrightarrow> \<not> d_closed d \<Longrightarrow> dispatchFrame A d (delete_id_frame i) = delete_id d i"
  by (simp add: dispatchFrame_def prepareFrame_def delete_id_frame_def handleDisplayEvent_def)

lemma Dispatch_delete_id:
  "\<exists>d'. Dispatch U A (received [delete_id_frame 3]) = Some (None, d')"
proof -
  let ?d = "received [delete_id_frame 3]" and ?f = "delete_id_frame 3"
  have "\<not> d_closed ?d" "stream ?d = message_bytes ?f @ []" "accepts ?d ?f"
    by (simp_all add: received_clean)
       (simp_all add: received_def fresh_display_def accepts_def delete_id_frame_def wf_frame_def frame_size_def
        HeaderSize_def maxMessageSize_def DefaultMaxMessageSize_def)
  then obtain d1 where d1: "Dispatch U A ?d = Some (let (err, d2) = dispatchFrame A d1 ?f in fail d2 err)"
      "core d1 = core ?d" "fd_stream U d1 = fd_stream U ?d"
    using Dispatch_next [OF received_clean(1)] by metis
  have "fd_stream U d1 = []" using d1(3) received_clean(3) by simp
  then have p: "d_pendingFDs d1 = []" by (simp add: fd_stream_def)
  have c: "\<not> d_closed d1" "objectAt d1 3 = None" "d_nextID d1 = 4" "d_retiredIDs d1 = {}"
    using d1(2) by (simp_all add: core_def received_def fresh_display_def)
  have "fst (dispatchFrame A d1 ?f) = None"
    using p c by (simp add: dispatchFrame_delete_id delete_id_ok)
  then show ?thesis using d1(1) by (cases "dispatchFrame A d1 ?f") (simp add: fail_def)
qed

theorem Dispatch_one_message_witness:
  "\<exists>f d1 d'. nextFrame linux_unix (received [delete_id_frame 3]) = Some (Inr f, d1) \<and>
     dispatchFrame idle_app d1 f = (None, d')"
  using Dispatch_delete_id [of linux_unix idle_app] Dispatch_one_message by blast

text \<open>
  C21: on an open connection \<^verbatim>\<open>Roundtrip\<close> sends one message, the sync request for a newly allocated ID,
  and waits for the done event of its callback. However many other messages are dispatched before it, when the
  done event arrives while the callback is still registered, \<^verbatim>\<open>Roundtrip\<close> returns nil right after it:
  the callback got its event and is out of both tables, and the bytes behind the event are still unread. And
  \<^verbatim>\<open>Roundtrip\<close> returns nil only after a dispatch that left the callback unregistered, all dispatches
  before it having left it registered.
\<close>

theorem Roundtrip_completes:
  assumes "\<not> d_closed d" "\<not> cx_closed (d_context d)" "\<not> cn_closed (d_conn d)" "cn_wres (d_conn d) = []"
    and "allocateID d = (i, d0)" "i \<noteq> 0" "i \<noteq> displayObjectID"
    and "waits U A (d_brk d) n (snd (Sync d)) = Some dn"
    and "clean U dn" "\<not> d_closed dn" "fd_stream U dn = []" "12 \<le> unat (maxMessageSize dn)"
    and "objectAt dn i = Some (ProxyObj (d_brk d))" "proxyAt dn i = Some (d_brk d)"
    and "d_heap dn (d_brk d) = d_heap (snd (Sync d)) (d_brk d)"
    and "stream dn = message_bytes (done_frame i v) @ rest"
  shows "sent_messages (snd (Sync d)) = sent_messages d @ [(message_bytes (sync_frame i), [])] \<and>
    (\<exists>d'. Roundtrip U A d = Some (None, d') \<and> objectAt d' i = None \<and> proxyAt d' i = None \<and> stream d' = rest \<and>
      sent_messages d' = sent_messages dn \<and>
      d_trace d' = d_trace dn @ [ToProxy (d_brk d) (newEvent i 0 (le32 v) [])]) \<and>
    (\<forall>B d'. Roundtrip U B d = Some (None, d') \<longrightarrow>
      (\<exists>k dk. waits U B (d_brk d) k (snd (Sync d)) = Some dk \<and> Dispatch U B dk = Some (None, d') \<and>
         objectAt d' (pid d' (d_brk d)) = None))"
proof -
  obtain d1 where d1: "Sync d = (Inr (d_brk d), d1)" "d_heap d1 (d_brk d) = callbackObject i (Some (cx_ref (d_context d)))"
      "sent_messages d1 = sent_messages d @ [(message_bytes (sync_frame i), [])]"
    by (rule Sync_ok [OF assms(1-6), of U])
  have R: "Roundtrip U B d = roundtrip_loop U B (d_brk d) d1" for B by (simp add: Roundtrip_def d1(1))
  have "d_heap dn (d_brk d) = callbackObject i (Some (cx_ref (d_context d)))" using assms(15) d1 by simp
  from roundtrip_done [OF assms(9-14) this assms(7,16), of A]
  obtain d' where "roundtrip_loop U A (d_brk d) dn = Some (None, d')" "objectAt d' i = None" "proxyAt d' i = None"
      "stream d' = rest" "sent_messages d' = sent_messages dn"
      "d_trace d' = d_trace dn @ [ToProxy (d_brk d) (newEvent i 0 (le32 v) [])]" by blast
  moreover have "roundtrip_loop U A (d_brk d) d1 = roundtrip_loop U A (d_brk d) dn"
    using roundtrip_waits assms(8) d1(1) by simp
  ultimately show ?thesis using d1 R roundtrip_loop_returns by auto
qed

text \<open>A peer that releases ID 3 before it answers.\<close>

lemma waits_delete_id:
  fixes U A
  defines "d \<equiv> received [delete_id_frame 3, done_frame 4 7]"
  obtains dn where "waits U A (d_brk d) 1 (snd (Sync d)) = Some dn" "clean U dn" "\<not> d_closed dn"
    "fd_stream U dn = []" "12 \<le> unat (maxMessageSize dn)" "objectAt dn 4 = Some (ProxyObj (d_brk d))"
    "proxyAt dn 4 = Some (d_brk d)" "d_heap dn (d_brk d) = d_heap (snd (Sync d)) (d_brk d)"
    "stream dn = message_bytes (done_frame 4 7)"
proof -
  let ?a = "d_brk d" and ?f = "delete_id_frame 3"
  have o: "\<not> d_closed d" "\<not> cx_closed (d_context d)" "\<not> cn_closed (d_conn d)" "cn_wres (d_conn d) = []"
      "allocateID d = (4, d\<lparr>d_nextID := 5\<rparr>)" "(4 :: u32) \<noteq> 0"
    by (simp_all add: d_def received_def fresh_display_def idle_conn_def allocateID_def)
  have r: "clean U d" "stream d = message_bytes ?f @ message_bytes (done_frame 4 7)" "fd_stream U d = []"
      "unat (maxMessageSize d) = 2 ^ 20" "d_maxMsgLen d = 0"
    unfolding d_def by (simp_all add: received_clean) (simp add: received_def fresh_display_def)
  obtain d1 where d1: "Sync d = (Inr ?a, d1)" "objectAt d1 4 = Some (ProxyObj ?a)" "proxyAt d1 4 = Some ?a" "pid d1 ?a = 4"
      "d_maxMsgLen d1 = d_maxMsgLen d" "d_closed d1 = d_closed d" "clean U d1 = clean U d"
      "fd_stream U d1 = fd_stream U d" "stream d1 = stream d"
      "id_state d1 = id_state (d\<lparr>d_nextID := 5\<rparr>)" "\<forall>j. j \<noteq> 4 \<longrightarrow> objectAt d1 j = objectAt d j"
    by (rule Sync_ok [OF o, of U])
  have n1: "d_nextID d1 = 5 \<and> d_retiredIDs d1 = {} \<and> objectAt d1 3 = None"
    using d1(10,11) by (simp add: id_state_def) (simp add: d_def received_def fresh_display_def)
  have "accepts d1 ?f"
    using r(5) d1(5) by (simp add: accepts_def delete_id_frame_def wf_frame_def frame_size_def
        HeaderSize_def maxMessageSize_def DefaultMaxMessageSize_def)
  then obtain d2 where d2: "Dispatch U A d1 = Some (let (err, d3) = dispatchFrame A d2 ?f in fail d3 err)"
      "core d2 = core d1" "clean U d2" "stream d2 = message_bytes (done_frame 4 7)" "fd_stream U d2 = fd_stream U d1"
      "d_maxMsgLen d2 = d_maxMsgLen d1"
    using Dispatch_next [of U d1 ?f _ A] d1 o r by metis
  have c: "d_objects d2 = d_objects d1" "d_heap d2 = d_heap d1" "\<not> d_closed d2" "d_context d2 = d_context d1"
      "d_nextID d2 = 5" "d_retiredIDs d2 = {}"
    using d2(2) d1(6) o(1) n1 by (simp_all add: core_def)
  let ?dn = "d2\<lparr>d_retiredIDs := {3}, d_freeIDs := d_freeIDs d2 @ [3]\<rparr>"
  have "d_pendingFDs d2 = []" using d2(5) d1(8) r(3) by (simp add: fd_stream_def)
  then have "dispatchFrame A d2 ?f = delete_id d2 3" using c(3) by (rule dispatchFrame_delete_id)
  moreover have "delete_id d2 3 = (None, ?dn)" using c n1 by (simp add: delete_id_def Let_def)
  ultimately have "Dispatch U A d1 = Some (None, ?dn)" using d2(1) by (simp add: fail_def)
  then have "waits U A ?a 1 (snd (Sync d)) = Some ?dn" using d1 c by simp
  moreover have "clean U ?dn" "fd_stream U ?dn = []" "stream ?dn = message_bytes (done_frame 4 7)" "maxMessageSize ?dn = maxMessageSize d"
    using d2 d1 r by (auto simp: clean_def fd_stream_def stream_def maxMessageSize_def split: if_splits)
  ultimately show thesis using that [of ?dn] d1 c r(4) by simp
qed

theorem Roundtrip_completes_witness:
  "\<exists>d'. Roundtrip linux_unix idle_app (received [delete_id_frame 3, done_frame 4 7]) = Some (None, d') \<and>
     objectAt d' 4 = None \<and> stream d' = []"
proof -
  let ?d = "received [delete_id_frame 3, done_frame 4 7]"
  have o: "\<not> d_closed ?d" "\<not> cx_closed (d_context ?d)" "\<not> cn_closed (d_conn ?d)" "cn_wres (d_conn ?d) = []"
      "allocateID ?d = (4, ?d\<lparr>d_nextID := 5\<rparr>)" "(4 :: u32) \<noteq> 0" "(4 :: u32) \<noteq> displayObjectID"
    by (simp_all add: received_def fresh_display_def idle_conn_def allocateID_def displayObjectID_def)
  show ?thesis
    by (rule waits_delete_id [of linux_unix idle_app], drule Roundtrip_completes [OF o, where rest = "[]"]) auto
qed

end
