(* ===== verification/Boundaries.thy ===== *)
theory Boundaries
  imports Loop
begin

text \<open>
  Descriptors and read boundaries. A descriptor arrives with the read that carries
  the first bytes of its batch, which may be the bytes of an earlier message. The
  framing of the bytes does not depend on the reads; the check for surplus
  descriptors does.
\<close>

section \<open>One read\<close>

text \<open>A read that succeeds, and a display whose next reads are given.\<close>

definition good_read :: "bytes \<Rightarrow> bytes \<Rightarrow> readResult" where
  "good_read bs oob = \<lparr>rd_data = bs, rd_oob = oob, rd_ctrunc = False, rd_err = None\<rparr>"

definition arriving :: "display \<Rightarrow> readResult list \<Rightarrow> display" where
  "arriving d rs = d\<lparr>d_conn := (d_conn d)\<lparr>cn_in := rs\<rparr>\<rparr>"

text \<open>Nothing is buffered: neither bytes nor descriptors.\<close>

definition drained :: "unix_pkg \<Rightarrow> display \<Rightarrow> bool" where
  "drained U d \<longleftrightarrow> clean U d \<and> \<not> d_closed d \<and> d_unix d \<and> \<not> unread d \<and> d_pendingFDs d = []"

lemma good_read_sel [simp]:
  "rd_data (good_read bs oob) = bs" "clean_read U (good_read bs [])"
  "read_fds U (good_read bs []) = []"
  "parseFDs U oob = Some (fds, None) \<Longrightarrow> clean_read U (good_read bs oob)"
  by (simp_all add: good_read_def clean_read_def read_fds_def)

lemma read_fds_good:
  "parseFDs U oob = Some (fds, None) \<Longrightarrow> oob \<noteq> [] \<Longrightarrow> read_fds U (good_read bs oob) = fds"
  by (simp add: good_read_def read_fds_def)

lemma arriving_facts:
  assumes "drained U d" "list_all (clean_read U) rs"
  shows "clean U (arriving d rs)" "stream (arriving d rs) = concat (map rd_data rs)"
    "fd_stream U (arriving d rs) = concat (map (read_fds U) rs)"
  using assms by (simp_all add: drained_def arriving_def clean_def stream_def fd_stream_def unread_def)

text \<open>The first frame of a read that begins with a whole message: all its descriptors are queued.\<close>

lemma nextFrame_first_read:
  assumes d: "drained U d" and acc: "accepts d f"
    and oob: "parseFDs U oob = Some (fds, None)" "oob \<noteq> []" and rs: "list_all (clean_read U) rs"
  obtains d1 where "nextFrame U (arriving d (good_read (message_bytes f @ tail) oob # rs)) = Some (Inr f, d1)"
    "core d1 = core d" "d_pendingFDs d1 = fds" "unread d1 \<longleftrightarrow> tail \<noteq> []"
proof -
  let ?r = "good_read (message_bytes f @ tail) oob" and ?m = "message_bytes f"
  let ?a = "arriving d (?r # rs)"
  define d2 where "d2 = queueFDs (d\<lparr>d_conn := (d_conn d)\<lparr>cn_in := rs\<rparr>, d_rbuf := ?m @ tail, d_rpos := 0\<rparr>) fds"
  have wf: "?m \<noteq> []" by (simp add: message_bytes_def header_bytes_def)
  have buf: "drop (d_rpos d) (d_rbuf d) = []" "d_rpos d \<le> length (d_rbuf d)" "d_readErr d = None"
      "\<not> cn_closed (d_conn d)" "d_pendingFDs d = []" "d_unix d" "\<not> d_closed d"
    using d by (simp_all add: drained_def clean_def unread_def)
  let ?c = "if d_rpos ?a > 0 then ?a\<lparr>d_rbuf := drop (d_rpos ?a) (d_rbuf ?a), d_rpos := 0\<rparr> else ?a"
  have "readChunk U ?c = Some ((?m @ tail, None), queueFDs (?c\<lparr>d_conn := (d_conn d)\<lparr>cn_in := rs\<rparr>\<rparr>) fds)"
    using readChunk_clean [of ?c ?r rs U] oob buf by (simp add: arriving_def read_fds_good)
  then have "fill U ?a = Some (None, d2)"
    using buf wf by (auto simp: fill_def arriving_def queueFDs_def d2_def Let_def)
  moreover have "nextFrame U ?a = read_on U ?a"
    by (rule nextFrame_short) (simp add: arriving_def buf HeaderSize_def)
  moreover have "nextFrame U d2 = Some (Inr f, d2\<lparr>d_rpos := d_rpos d2 + frame_size f\<rparr>)"
  proof (rule nextFrame_ready)
    show "clean U d2" using buf rs by (simp add: clean_def d2_def queueFDs_def)
    show "drop (d_rpos d2) (d_rbuf d2) = ?m @ tail" by (simp add: d2_def queueFDs_def)
    show "accepts d2 f" using acc by (subst maxMessageSize_cong [of d2 d]) (simp_all add: d2_def queueFDs_def)
  qed
  ultimately have "nextFrame U ?a = Some (Inr f, d2\<lparr>d_rpos := d_rpos d2 + frame_size f\<rparr>)"
    by (simp add: read_on_def)
  then show thesis by (rule that) (simp_all add: core_def d2_def queueFDs_def unread_def buf)
qed

section \<open>A message without descriptors\<close>

lemma prepareFrame_no_fd:
  assumes "\<not> d_closed d" "f_object f \<noteq> displayObjectID" "objectAt d (f_object f) = Some obj"
    and "eventSignature d obj (f_object f) (f_opcode f) = Some sig" "validateEventBody sig (f_body f) = None"
    and "count_fd sig = 0" "d_pendingFDs d \<noteq> []"
  shows "prepareFrame d f =
    (if unread d then PObject obj (newEvent (f_object f) (f_opcode f) (f_body f) [])
     else PErr (ProtocolError ''extra_fd'' (f_object f) (f_opcode f) 0 ErrMalformedFrame), d)"
proof -
  have "d\<lparr>d_pendingFDs := d_pendingFDs d\<rparr> = d" "d\<lparr>d_closedFDs := d_closedFDs d\<rparr> = d" by simp_all
  then show ?thesis using assms by (simp add: prepareFrame_def Let_def newEvent_def close_fds_def)
qed

lemma Dispatch_first_read:
  assumes "drained U d" "accepts d f" "parseFDs U oob = Some (fds, None)" "oob \<noteq> []" "fds \<noteq> []"
    and "list_all (clean_read U) rs"
    and obj: "f_object f \<noteq> displayObjectID" "objectAt d (f_object f) = Some obj"
      "eventSignature d obj (f_object f) (f_opcode f) = Some sig" "validateEventBody sig (f_body f) = None"
      "count_fd sig = 0"
  shows "\<exists>d'. Dispatch U A (arriving d (good_read (message_bytes f @ tail) oob # rs)) =
    Some (if tail = [] then Some (ProtocolError ''extra_fd'' (f_object f) (f_opcode f) 0 ErrMalformedFrame) else None, d')"
proof -
  let ?a = "arriving d (good_read (message_bytes f @ tail) oob # rs)"
  obtain d1 where d1: "nextFrame U ?a = Some (Inr f, d1)" "core d1 = core d" "d_pendingFDs d1 = fds"
      "unread d1 \<longleftrightarrow> tail \<noteq> []"
    by (rule nextFrame_first_read [OF assms(1-4,6)])
  have c: "\<not> d_closed d1" "objectAt d1 (f_object f) = Some obj" "d_heap d1 = d_heap d" "d_signatures d1 = d_signatures d"
    using d1(2) assms(1) obj by (auto simp: core_def drained_def)
  have "eventSignature d1 obj (f_object f) (f_opcode f) = Some sig"
    using obj(3) c by (cases obj) (simp_all add: eventSignature_def split: option.splits)
  then have "prepareFrame d1 f =
    (if tail \<noteq> [] then PObject obj (newEvent (f_object f) (f_opcode f) (f_body f) [])
     else PErr (ProtocolError ''extra_fd'' (f_object f) (f_opcode f) 0 ErrMalformedFrame), d1)"
    using prepareFrame_no_fd [of d1 f obj sig] c obj d1 assms(5) by simp
  then have "fst (dispatchFrame A d1 f) =
      (if tail = [] then Some (ProtocolError ''extra_fd'' (f_object f) (f_opcode f) 0 ErrMalformedFrame) else None)"
    by (simp add: dispatchFrame_def case_prod_beta Let_def)
  moreover have "\<not> d_closed ?a" using assms(1) by (simp add: arriving_def drained_def)
  ultimately show ?thesis
    using d1(1) c(1) by (cases "dispatchFrame A d1 f") (auto simp: Dispatch_def fail_def Let_def)
qed

section \<open>Properties\<close>

text \<open>
  C37: descriptors that arrive with a message that carries none. Whether they are a
  violation depends on the reads: when the same read holds at least one byte of what
  follows, the message is delivered and the descriptors wait for theirs; when the
  read ends with the message, \<^verbatim>\<open>Dispatch\<close> fails with \<^verbatim>\<open>extra_fd\<close>, although the bytes,
  the descriptors and their order on the connection are the same.
\<close>

theorem extra_fd_depends_on_reads:
  assumes "drained U d" "accepts d f" "parseFDs U oob = Some (fds, None)" "oob \<noteq> []" "fds \<noteq> []" "rest \<noteq> []"
    and "f_object f \<noteq> displayObjectID" "objectAt d (f_object f) = Some obj"
    and "eventSignature d obj (f_object f) (f_opcode f) = Some sig" "validateEventBody sig (f_body f) = None"
    and "count_fd sig = 0"
  defines "together \<equiv> arriving d [good_read (message_bytes f @ rest) oob]"
    and "apart \<equiv> arriving d [good_read (message_bytes f) oob, good_read rest []]"
  shows "clean U together \<and> clean U apart \<and> stream together = stream apart \<and>
    fd_stream U together = fd_stream U apart \<and>
    (\<exists>d'. Dispatch U A together = Some (None, d')) \<and>
    (\<exists>d'. Dispatch U A apart =
      Some (Some (ProtocolError ''extra_fd'' (f_object f) (f_opcode f) 0 ErrMalformedFrame), d'))"
proof -
  note first = Dispatch_first_read [OF assms(1-5) _ assms(7-11), of _ A]
  have "list_all (clean_read U) [good_read (message_bytes f @ rest) oob]"
      "list_all (clean_read U) [good_read (message_bytes f) oob, good_read rest []]"
    using assms(3) by simp_all
  note facts = arriving_facts [OF assms(1) this(1)] arriving_facts [OF assms(1) this(2)]
  show ?thesis
    unfolding together_def apart_def
    using facts first [of "[]" rest] first [of "[good_read rest []]" "[]"] assms(6) read_fds_good [OF assms(3,4)]
    by simp
qed

definition early_fd :: display where
  "early_fd = one_proxy_display\<lparr>d_signatures := [(3, 1) \<mapsto> '''']\<rparr>"

definition one_fd :: bytes where
  "one_fd = cmsg_bytes linux_unix \<lparr>cm_level = 1, cm_type = 1, cm_data = fd_bytes [7]\<rparr>"

lemma one_fd_parse: "parseFDs linux_unix one_fd = Some ([7], None)" "one_fd \<noteq> []"
proof -
  let ?cs = "[\<lparr>cm_level = 1, cm_type = 1, cm_data = fd_bytes [7]\<rparr>]"
  have "concat (map (cmsg_fds linux_unix) ?cs) = [7]" "list_all (cmsg_ok linux_unix) ?cs"
    using ParseUnixRights_fd_bytes [of "[7]"] by (simp_all add: cmsg_fds_def cmsg_ok_def linux_unix_def fd_bytes_def)
  then show "parseFDs linux_unix one_fd = Some ([7], None)"
    using parseFDs_whole [OF linux_unix_ok, of ?cs] by (simp add: one_fd_def)
  show "one_fd \<noteq> []" by (simp add: one_fd_def cmsg_bytes_def)
qed

theorem extra_fd_depends_on_reads_witness:
  "let f = \<lparr>f_object = 3, f_opcode = 1, f_body = []\<rparr>; rest = message_bytes \<lparr>f_object = 3, f_opcode = 0, f_body = []\<rparr>
   in (\<exists>d'. Dispatch linux_unix idle_app (arriving early_fd [good_read (message_bytes f @ rest) one_fd]) = Some (None, d')) \<and>
      (\<exists>d'. Dispatch linux_unix idle_app (arriving early_fd [good_read (message_bytes f) one_fd, good_read rest []]) =
         Some (Some (ProtocolError ''extra_fd'' 3 1 0 ErrMalformedFrame), d'))"
proof -
  let ?f = "\<lparr>f_object = 3, f_opcode = 1, f_body = []\<rparr> :: receivedFrame"
  have "drained linux_unix early_fd" "accepts early_fd ?f" "f_object ?f \<noteq> displayObjectID"
      "objectAt early_fd (f_object ?f) = Some (ProxyObj 0)"
      "eventSignature early_fd (ProxyObj 0) (f_object ?f) (f_opcode ?f) = Some ''''"
      "validateEventBody '''' (f_body ?f) = None" "count_fd '''' = 0"
    by (simp_all add: early_fd_def one_proxy_display_eq fresh_display_def idle_conn_def drained_def clean_def unread_def
        accepts_def wf_frame_def frame_size_def HeaderSize_def maxMessageSize_def DefaultMaxMessageSize_def
        displayObjectID_def eventSignature_def BaseProxy_def validate_eval)
  from extra_fd_depends_on_reads [OF this(1,2) one_fd_parse _ _ this(3-7),
      of "message_bytes \<lparr>f_object = 3, f_opcode = 0, f_body = []\<rparr>" idle_app]
  show ?thesis by (simp add: message_bytes_def header_bytes_def)
qed

end
