(* ===== verification/Session.thy ===== *)
theory Session
  imports Loop
begin

text \<open>
  A session: everything that can happen to one connection when the calls of the
  application and of the dispatch loop do not overlap. A session starts with
  \<^verbatim>\<open>ConnectFromConn\<close>; each step is a library call or a whole \<^verbatim>\<open>Dispatch\<close> with an
  arbitrary application. The invariants of the components hold in every state of
  every session.
\<close>

inductive session :: "unix_pkg \<Rightarrow> display \<Rightarrow> bool" for U where
  connect: "session U (snd (ConnectFromConn c isUnix ref heap brk))"
| call: "session U d \<Longrightarrow> session U (run_api x d)"
| dispatch: "session U d \<Longrightarrow> Dispatch U A d = Some (e, d') \<Longrightarrow> session U d'"

section \<open>Connecting\<close>

context api_invariant
begin

lemma ConnectFromConn:
  assumes "I (newDisplay c isUnix ref heap brk)"
  shows "I (snd (ConnectFromConn c isUnix ref heap brk))"
proof -
  let ?d = "newDisplay c isUnix ref heap brk"
  have "I (snd (getRegistry ?d))" unfolding getRegistry_def by (rule Display_SendRequest [OF assms])
  then show ?thesis
    by (cases "getRegistry ?d") (auto simp: ConnectFromConn_def Close split: option.splits)
qed

end

section \<open>Nothing is pending on a closed display\<close>

definition closed_empty :: "display \<Rightarrow> bool" where
  "closed_empty d \<longleftrightarrow> (if d_closed d then d_pendingFDs d = [] else True)"

interpretation closed_api: handler_invariant closed_empty
  by unfold_locales
     (auto simp: closed_empty_def op_defs Let_def case_prod_beta split: option.splits)

lemma closed_empty_run_acts: "closed_empty (snd s) \<Longrightarrow> closed_empty (snd (run_acts xs s))"
proof (induction xs arbitrary: s)
  case (Cons x xs)
  have "closed_empty (snd (run_act x s))"
    using Cons.prems closed_api.run_api
    by (cases x; cases s) (auto simp: case_prod_beta Let_def closed_empty_def split: sum.splits)
  then show ?case using Cons.IH by simp
qed simp

lemma closed_empty_deliver: "closed_empty d \<Longrightarrow> closed_empty (snd (deliver A obj e d))"
  by (cases obj)
     (auto simp: closed_api.log_delivery callback_Dispatch_def closed_api.Unregister closed_empty_run_acts
        closed_api.Registry_Dispatch split: pclass.splits)

lemma closed_empty_fail: "closed_empty d \<Longrightarrow> closed_empty (snd (fail d e))"
  by (auto simp: fail_def Let_def closePendingFDs_def closed_empty_def split: option.splits)

lemma closed_empty_dispatchFrame:
  assumes "\<not> d_closed d"
  shows "closed_empty (snd (dispatchFrame A d f))"
proof -
  obtain pr d1 where p: "prepareFrame d f = (pr, d1)" by (cases "prepareFrame d f")
  have "d_closed d1 = d_closed d"
    using p by (auto simp: prepareFrame_def Let_def split: if_splits option.splits)
  then have c1: "\<not> d_closed d1" "closed_empty d1" using assms by (simp_all add: closed_empty_def)
  have "d_closed (snd (delete_id d1 i)) = d_closed d1" for i by (simp add: delete_id_def Let_def)
  then have "closed_empty (snd (handleDisplayEvent d1 oc b))" for oc b
    using c1 by (auto simp: handleDisplayEvent_def Let_def case_prod_beta closed_empty_def split: option.splits)
  moreover have "closed_empty (x\<lparr>d_closedFDs := y\<rparr>) = closed_empty x" for x y by (simp add: closed_empty_def)
  ultimately show ?thesis
    using p c1 closed_empty_deliver
    by (simp add: dispatchFrame_def case_prod_beta Let_def split: prepared.splits)
qed

lemma closed_empty_Dispatch:
  assumes "closed_empty d" "Dispatch U A d = Some (e, d')"
  shows "closed_empty d'"
proof (cases "nextFrame U d")
  case (Some x)
  then obtain r d1 where x: "nextFrame U d = Some (r, d1)" by (cases x) auto
  have c: "d_closed d1 = d_closed d" using core_recv.nextFrame [OF x] by (simp add: core_def)
  show ?thesis
  proof (cases "d_closed d")
    case False
    then have "\<not> d_closed d1" "closed_empty d1" using c by (simp_all add: closed_empty_def)
    then have "closed_empty (snd (fail (snd (dispatchFrame A d1 f)) err))" "closed_empty (snd (fail d1 err))" for f err
      by (simp_all add: closed_empty_fail closed_empty_dispatchFrame)
    then show ?thesis
      using assms x c False
      by (auto simp: Dispatch_def case_prod_beta Let_def split: if_splits sum.splits) (metis snd_conv)+
  qed (use assms in \<open>simp add: Dispatch_def\<close>)
qed (use assms in \<open>auto simp: Dispatch_def split: if_splits\<close>)

section \<open>Invariants of a session\<close>

lemma session_induct_inv:
  assumes "session U d"
    and "\<And>c isUnix ref heap brk. P (snd (ConnectFromConn c isUnix ref heap brk))"
    and "\<And>d x. P d \<Longrightarrow> P (run_api x d)" "\<And>A d e d'. P d \<Longrightarrow> Dispatch U A d = Some (e, d') \<Longrightarrow> P d'"
  shows "P d"
  using assms(1) by induction (auto intro: assms(2-4))

lemma session_ids: "session U d \<Longrightarrow> id_inv d"
  by (erule session_induct_inv) (auto intro: id_conn.ConnectFromConn id_conn.run_api id_conn.Dispatch)

lemma session_tables: "session U d \<Longrightarrow> tables_inv d"
  by (erule session_induct_inv) (auto intro: tab_conn.ConnectFromConn tab_conn.run_api tab_conn.Dispatch)

lemma session_fds: "session U d \<Longrightarrow> fds_conserved {#} d"
  by (erule session_induct_inv) (auto intro: fd_api.ConnectFromConn fd_api.run_api Dispatch_conserved)

lemma session_closed: "session U d \<Longrightarrow> closed_empty d"
  by (erule session_induct_inv)
     (auto intro: closed_api.ConnectFromConn closed_api.run_api closed_empty_Dispatch simp: closed_empty_def [of "newDisplay _ _ _ _ _"])

section \<open>Properties\<close>

definition connected :: display where
  "connected = snd (ConnectFromConn idle_conn True 0 (\<lambda>_. BaseProxy 0 None 0) 0)"

lemma connected_session: "session U connected"
  unfolding connected_def by (rule session.connect)

text \<open>
  C5: once a display is closed no received descriptor is left open by the library:
  each was closed or taken over by the application, and none both.
\<close>

theorem no_fd_leak_after_close:
  assumes "session U d" "d_closed d"
  shows "d_pendingFDs d = [] \<and> live_fds (d_recvFDs d) = mset (d_closedFDs d) + mset (d_takenFDs d)"
  using session_closed [OF assms(1)] session_fds [OF assms(1)] assms(2)
  by (simp add: closed_empty_def fds_conserved_def)

theorem no_fd_leak_after_close_witness:
  "d_pendingFDs (run_api ApiClose connected) = [] \<and>
   live_fds (d_recvFDs (run_api ApiClose connected)) =
     mset (d_closedFDs (run_api ApiClose connected)) + mset (d_takenFDs (run_api ApiClose connected))"
proof (rule no_fd_leak_after_close [where U = linux_unix])
  show "session linux_unix (run_api ApiClose connected)" by (rule session.call) (rule connected_session)
  show "d_closed (run_api ApiClose connected)"
    by (simp add: Close_def Let_def case_prod_beta closePendingFDs_def)
qed

text \<open>
  C30: a dispatch that ends with a protocol violation or with the peer closing the
  connection leaves no descriptor in the queue: those that were pending are closed.
\<close>

theorem failed_dispatch_closes_fds:
  assumes "session U d" "Dispatch U A d = Some (Some err, d')" "as_ProtocolError err \<or> errors_Is err IoErrUnexpectedEOF"
  shows "d_pendingFDs d' = [] \<and> live_fds (d_recvFDs d') = mset (d_closedFDs d') + mset (d_takenFDs d')"
  using Dispatch_error_closes [OF assms(2,3)] Dispatch_conserved [OF session_fds [OF assms(1)] assms(2)]
  by (simp add: fds_conserved_def)

definition eof_conn :: netConn where
  "eof_conn = idle_conn\<lparr>cn_in := [\<lparr>rd_data = [1, 2], rd_oob = [], rd_ctrunc = False, rd_err = Some IoEOF\<rparr>]\<rparr>"

theorem failed_dispatch_closes_fds_witness:
  "d_pendingFDs (snd (the (Dispatch linux_unix idle_app (snd (ConnectFromConn eof_conn True 0 (\<lambda>_. BaseProxy 0 None 0) 0))))) = []"
proof -
  let ?d = "snd (ConnectFromConn eof_conn True 0 (\<lambda>_. BaseProxy 0 None 0) 0)"
  have c: "?d = (newDisplay eof_conn True 0 (\<lambda>_. BaseProxy 0 None 0) 0)\<lparr>d_conn := eof_conn\<lparr>cn_out := cn_out (d_conn ?d)\<rparr>\<rparr>"
    by (simp add: ConnectFromConn_def op_defs encodeRequest_def putUint32_def HeaderSize_def sendmsgWithFDs_def
        conn_Write_def eof_conn_def idle_conn_def Let_def)
  have "\<exists>d'. Dispatch linux_unix idle_app ?d = Some (Some IoErrUnexpectedEOF, d')"
    by (subst c) (simp add: Dispatch_def nextFrame.simps fill_def readChunk_def queueFDs_def eof_conn_def
        idle_conn_def HeaderSize_def Let_def fail_def)
  then obtain d' where "Dispatch linux_unix idle_app ?d = Some (Some IoErrUnexpectedEOF, d')" by blast
  then show ?thesis
    using failed_dispatch_closes_fds [OF session.connect, of linux_unix idle_app eof_conn True 0 "\<lambda>_. BaseProxy 0 None 0" 0]
    by simp
qed

end
