(* ===== verification/Steps.thy ===== *)
theory Steps
  imports Session
begin

text \<open>
  Goroutines that use one connection at the same time, as a step relation. A step is one
  critical section, one atomic operation on a table or a flag, or a check that only reads:

  \<^item> a send checks the proxy and marshals (\<open>LStart\<close>), takes the send lock and finds the display
    open (\<open>LEnter\<close>), checks the proxy again (\<open>LGuard\<close>) and writes (\<open>LWrite\<close>); the guard of
    a destructor also claims the proxy, in two operations between \<open>LGuard\<close> and \<open>LWrite\<close>;
  \<^item> an operation on both object tables (\<^verbatim>\<open>Register\<close>, \<^verbatim>\<open>Unregister\<close>, \<^verbatim>\<open>UnregisterID\<close>, \<^verbatim>\<open>Abandon\<close> and
    the claim of a destructor) is a check (\<open>LBegin\<close>, \<open>LGuard\<close>), an operation on the context's table and
    one on the display's table (\<open>LMicro\<close>);
  \<^item> a dispatch reads a frame under the receive lock, finds the display still open, looks the object up and takes
    its descriptors under the receive lock again, checks that the object is still
    the registered one, calls the handler, and closes the remaining descriptors at
    the end; the calls of the handler are steps of their own;
  \<^item> a \<^verbatim>\<open>delete_id\<close> event takes the ID lock and loads the object, removes a zombie, and retires the
    ID before it gives the lock back; no ID is allocated meanwhile;
  \<^item> a registry event is stored under the registry's lock, then its handlers are called one by one;
  \<^item> \<^verbatim>\<open>Close\<close> marks the display, marks the context, closes the socket and closes the pending
    descriptors under the receive lock, in four steps;
  \<^item> every other library call that sends nothing is one step.

  \<^verbatim>\<open>CheckProxy\<close> reads the closed flag and then the table, in one step, as do the checks at the beginning of \<^verbatim>\<open>Register\<close>;
  a write and the closing of the socket when it fails are one step under the send lock.
  A proxy's ID is read once per operation: a program in which another goroutine sets
  the ID of a proxy meanwhile has a data race. Zombies are compared by the proxy they stand for.
\<close>

section \<open>Operations on both tables\<close>

text \<open>What an operation has still to do: its next atomic operation, with the ID and the proxy it is for.\<close>

datatype micro =
    StoreProxy u32 addr | StoreObj u32 addr
  | DropProxy u32 addr | DropObj u32 addr
  | DeleteProxy u32 | DeleteObj u32
  | ClaimProxy u32 addr | SwapObj u32 addr

fun micro_id :: "micro \<Rightarrow> u32" where
  "micro_id (StoreProxy i a) = i"
| "micro_id (StoreObj i a) = i"
| "micro_id (DropProxy i a) = i"
| "micro_id (DropObj i a) = i"
| "micro_id (DeleteProxy i) = i"
| "micro_id (DeleteObj i) = i"
| "micro_id (ClaimProxy i a) = i"
| "micro_id (SwapObj i a) = i"

definition set_proxies :: "display \<Rightarrow> addr objectTable \<Rightarrow> display" where
  "set_proxies d t = d\<lparr>d_context := (d_context d)\<lparr>cx_proxies := t\<rparr>\<rparr>"

definition set_objects :: "display \<Rightarrow> object objectTable \<Rightarrow> display" where
  "set_objects d t = d\<lparr>d_objects := t\<rparr>"

text \<open>
  The atomic operation: whether it changed its entry, as the table reports it, the new state and what
  follows. A claim that finds another proxy or none is lost, and nothing follows.
\<close>

fun micro_step :: "micro \<Rightarrow> display \<Rightarrow> bool \<times> display \<times> micro option" where
  "micro_step (StoreProxy i a) d =
     (True, set_proxies d (Store (cx_proxies (d_context d)) i a), Some (StoreObj i a))"
| "micro_step (StoreObj i a) d = (True, set_objects d (Store (d_objects d) i (ProxyObj a)), None)"
| "micro_step (DropProxy i a) d =
     (let (ok, t) = CompareAndDelete (cx_proxies (d_context d)) i a in (ok, set_proxies d t, Some (DropObj i a)))"
| "micro_step (DropObj i a) d =
     (let (ok, t) = CompareAndDelete (d_objects d) i (ProxyObj a) in (ok, set_objects d t, None))"
| "micro_step (DeleteProxy i) d = (True, set_proxies d (Delete (cx_proxies (d_context d)) i), Some (DeleteObj i))"
| "micro_step (DeleteObj i) d = (True, set_objects d (Delete (d_objects d) i), None)"
| "micro_step (ClaimProxy i a) d =
     (let (ok, t) = CompareAndDelete (cx_proxies (d_context d)) i a
      in (ok, set_proxies d t, if ok then Some (SwapObj i a) else None))"
| "micro_step (SwapObj i a) d =
     (let (ok, t) = CompareAndSwap (d_objects d) i (ProxyObj a) (ZombieObj a) in (ok, set_objects d t, None))"

text \<open>The checks at the beginning, which only read.\<close>

definition begin_claim :: "display \<Rightarrow> addr option \<Rightarrow> error option \<times> micro option" where
  "begin_claim d p =
     (case CheckProxy d p of Some err \<Rightarrow> (Some err, None) | None \<Rightarrow> (None, Some (ClaimProxy (pid d (the p)) (the p))))"

fun begin_op :: "api \<Rightarrow> display \<Rightarrow> micro option" where
  "begin_op (ApiRegister (Some a)) d =
     (if pid d a \<noteq> 0 \<and> \<not> cx_closed (d_context d) \<and> proxyContext d a = Some (cx_ref (d_context d))
      then Some (StoreProxy (pid d a) a) else None)"
| "begin_op (ApiUnregister (Some a)) d = Some (DropProxy (pid d a) a)"
| "begin_op (ApiUnregisterID i) d = Some (DeleteProxy i)"
| "begin_op (ApiAbandon p) d = snd (begin_claim d p)"
| "begin_op _ d = None"

fun two_tables :: "api \<Rightarrow> bool" where
  "two_tables (ApiRegister p) = True"
| "two_tables (ApiUnregister p) = True"
| "two_tables (ApiUnregisterID i) = True"
| "two_tables (ApiAbandon p) = True"
| "two_tables _ = False"

text \<open>Without interference the steps are the sequential operation.\<close>

definition run_micro :: "micro option \<Rightarrow> display \<Rightarrow> display" where
  "run_micro w d =
     (case w of
        None \<Rightarrow> d
      | Some m1 \<Rightarrow>
          (case micro_step m1 d of
             (ok, d1, None) \<Rightarrow> d1
           | (ok, d1, Some m2) \<Rightarrow> fst (snd (micro_step m2 d1))))"

lemma claim_micro:
  "claimDestroy d p = (fst (begin_claim d p), run_micro (snd (begin_claim d p)) d)"
proof (cases "CheckProxy d p")
  case None
  then obtain a where "p = Some a" "proxyAt d (pid d a) = Some a" by (auto simp: CheckProxy_None)
  then show ?thesis
    using None
    by (simp add: claimDestroy_def begin_claim_def run_micro_def set_proxies_def set_objects_def Let_def case_prod_beta
        CompareAndDelete_def)
qed (simp add: claimDestroy_def begin_claim_def run_micro_def)

lemma begin_micro: "two_tables x \<Longrightarrow> run_api x d = run_micro (begin_op x d) d"
proof (cases x)
  case (ApiRegister p)
  then show ?thesis
    by (cases p) (auto simp: Register_def run_micro_def set_proxies_def set_objects_def)
next
  case (ApiUnregister p)
  then show ?thesis
    by (cases p) (simp_all add: Unregister_def run_micro_def set_proxies_def set_objects_def case_prod_beta Let_def)
next
  case (ApiUnregisterID i)
  then show ?thesis by (simp add: UnregisterID_def run_micro_def set_proxies_def set_objects_def)
next
  case (ApiAbandon p)
  then show ?thesis by (simp add: Abandon_def claim_micro)
qed simp_all

section \<open>The acknowledgement of a destruction\<close>

definition is_zombie_entry :: "object option \<Rightarrow> bool" where
  "is_zombie_entry ob \<longleftrightarrow> (case ob of Some (ZombieObj _) \<Rightarrow> True | _ \<Rightarrow> False)"

text \<open>
  The three operations of \<^verbatim>\<open>delete_id\<close> under the ID lock: the load, the removal of the zombie that was loaded,
  and the update of the ID state.
\<close>

definition bury :: "display \<Rightarrow> u32 \<Rightarrow> object option \<Rightarrow> bool \<times> display" where
  "bury d i ob =
     (if is_zombie_entry ob then let (ok, t) = CompareAndDelete (d_objects d) i (the ob) in (ok, set_objects d t)
      else (False, d))"

definition retire :: "display \<Rightarrow> u32 \<Rightarrow> bool \<Rightarrow> error option \<times> display" where
  "retire d i live =
     (if i < 2 \<or> i \<ge> 0xff000000 \<or> i \<ge> d_nextID d \<or> live \<or> i \<in> d_retiredIDs d
      then (Some (ProtocolError ''invalid_delete_id'' i 0 0 ErrMalformedFrame), d)
      else (None, d\<lparr>d_retiredIDs := insert i (d_retiredIDs d), d_freeIDs := d_freeIDs d @ [i]\<rparr>))"

lemma delete_id_split:
  "delete_id d i =
     (let ob = objectAt d i in retire (snd (bury d i ob)) i (ob \<noteq> None \<and> \<not> is_zombie_entry ob))"
  by (simp add: delete_id_def bury_def retire_def is_zombie_entry_def set_objects_def Let_def case_prod_beta)

section \<open>Registry events\<close>

text \<open>What the registry does under its lock, and the handlers to be called.\<close>

definition store_global :: "display \<Rightarrow> u32 \<Rightarrow> string \<Rightarrow> u32 \<Rightarrow> display" where
  "store_global d name iface version =
     d\<lparr>d_registry := (d_registry d)\<lparr>r_globals :=
         (r_globals (d_registry d))(name \<mapsto> \<lparr>g_name = name, g_interface = iface, g_version = version\<rparr>)\<rparr>\<rparr>"

definition drop_global :: "display \<Rightarrow> u32 \<Rightarrow> display" where
  "drop_global d name = d\<lparr>d_registry := (d_registry d)\<lparr>r_globals := (r_globals (d_registry d))(name := None)\<rparr>\<rparr>"

definition handlers_for :: "display \<Rightarrow> string \<Rightarrow> globalHandler list" where
  "handlers_for d iface = r_handlers (d_registry d) iface @ r_handlers (d_registry d) ''*''"

lemma handleGlobal_split:
  "handleGlobal A d name iface version =
     call_global_handlers A name version (handlers_for d iface) (store_global d name iface version)"
  "handleGlobalRemove A d name = call_remove_handlers A name (r_removeHandlers (d_registry d)) (drop_global d name)"
  by (simp_all add: handleGlobal_def handleGlobalRemove_def store_global_def drop_global_def handlers_for_def Let_def)

section \<open>Sending\<close>

text \<open>A marshalled message, and the proxy and check of its guard; a raw request has none.\<close>

record job =
  j_guard :: "(addr \<times> check) option"
  j_data :: bytes
  j_fds :: "fd list"

text \<open>The guard: its result, and the claim that a destructor's guard goes on with.\<close>

fun begin_guard :: "(addr \<times> check) option \<Rightarrow> display \<Rightarrow> error option \<times> micro option" where
  "begin_guard None d = (None, None)"
| "begin_guard (Some (a, PlainCheck)) d = (CheckProxy d (Some a), None)"
| "begin_guard (Some (a, DestroyCheck)) d = begin_claim d (Some a)"

text \<open>The second half of \<^verbatim>\<open>sendmsgWithFDs\<close>, behind the guard.\<close>

definition send_write :: "display \<Rightarrow> bytes \<Rightarrow> fd list \<Rightarrow> error option \<times> display" where
  "send_write d buf fds =
     (let ((n, werr), c) = conn_Write (d_conn d) buf fds;
          err = (if werr = None \<and> n \<noteq> length buf then Some IoErrShortWrite else werr)
      in if err \<noteq> None then (err, d\<lparr>d_conn := snd (conn_Close c)\<rparr>) else (None, d\<lparr>d_conn := c\<rparr>))"

definition sendable :: "display \<Rightarrow> fd list \<Rightarrow> bool" where
  "sendable d fds \<longleftrightarrow> \<not> d_closed d \<and> (fds = [] \<or> d_unix d)"

text \<open>A send without interference is the sequential operation.\<close>

lemma sendmsg_split:
  "sendmsgWithFDs d buf fds (map_option (\<lambda>(a, chk). run_check chk (Some a)) g) =
     (if \<not> sendable d fds
      then (fst (sendmsgWithFDs d buf fds (map_option (\<lambda>(a, chk). run_check chk (Some a)) g)), d)
      else case begin_guard g d of
             (Some err, w) \<Rightarrow> (Some err, d)
           | (None, w) \<Rightarrow> send_write (run_micro w d) buf fds)"
proof (cases "sendable d fds")
  case True
  have "run_guard (map_option (\<lambda>(a, chk). run_check chk (Some a)) g) d =
      (fst (begin_guard g d), run_micro (snd (begin_guard g d)) d)"
    by (cases "(g, d)" rule: begin_guard.cases) (simp_all add: run_guard_def run_micro_def claim_micro)
  moreover have "run_micro (snd (begin_guard g d)) d = d" if "fst (begin_guard g d) = Some err" for err
    using that by (cases "(g, d)" rule: begin_guard.cases) (auto simp: run_micro_def begin_claim_def split: option.splits)
  ultimately show ?thesis
    using True
    by (cases "begin_guard g d")
       (auto simp: sendmsgWithFDs_def sendable_def send_write_def run_guard_def split: option.splits)
qed (auto simp: sendmsgWithFDs_def sendable_def)

section \<open>The system\<close>

datatype phase =
    PIdle
  | PRead "receivedFrame result"
  | PFramed receivedFrame
  | PFailed error
  | PDisplayEvent receivedFrame
  | PDeleting u32 "object option"
  | PRetiring u32 bool
  | PPrepared object event u32
  | PChecked object event
  | PUnregistering nat event
  | PGlobal u32 u32 "globalHandler list" event
  | PRemove u32 "nat list" event
  | PHandling event

datatype closing = NotClosed | Marked | ContextMarked | SocketClosed | Released

text \<open>
  The goroutines that hold a marshalled message (\<open>s_jobs\<close>), the one inside the send lock with whether its
  guard has been passed (\<open>s_sending\<close>), those inside an operation on both tables (\<open>s_micro\<close>),
  the progress of \<^verbatim>\<open>Close\<close> and the phase of the dispatch loop.
\<close>

record system =
  s_d :: display
  s_jobs :: "nat \<Rightarrow> job option"
  s_sending :: "(nat \<times> job \<times> bool) option"
  s_micro :: "nat \<Rightarrow> micro option"
  s_closing :: closing
  s_ev :: phase

text \<open>A goroutine that is in none of these.\<close>

definition at_rest :: "system \<Rightarrow> nat \<Rightarrow> bool" where
  "at_rest s t \<longleftrightarrow> s_jobs s t = None \<and> s_micro s t = None \<and>
     (case s_sending s of Some (u, j, g) \<Rightarrow> u \<noteq> t | None \<Rightarrow> True)"

text \<open>The ID lock is held during a \<^verbatim>\<open>delete_id\<close>.\<close>

definition id_locked :: "system \<Rightarrow> bool" where
  "id_locked s \<longleftrightarrow> (case s_ev s of PDeleting i ob \<Rightarrow> True | PRetiring i live \<Rightarrow> True | _ \<Rightarrow> False)"

text \<open>The library calls that neither send nor close nor allocate and touch no object table.\<close>

fun local_call :: "api \<Rightarrow> bool" where
  "local_call (ApiDisplaySendRequest _ _ _ _) = False"
| "local_call (ApiContextSendRequest _ _ _ _) = False"
| "local_call (ApiSendDestructor _ _ _ _) = False"
| "local_call (ApiRequest _ _) = False"
| "local_call (ApiRequestArgs _ _) = False"
| "local_call ApiSync = False"
| "local_call (ApiBind _ _ _ _) = False"
| "local_call (ApiBindNegotiated _ _ _ _) = False"
| "local_call (ApiBindID _ _ _) = False"
| "local_call ApiClose = False"
| "local_call ApiContextClose = False"
| "local_call ApiAllocateID = False"
| "local_call x = (\<not> two_tables x)"

datatype label =
    LStart nat "addr option"
  | LRefuse nat
  | LEnter nat
  | LGuard nat "(addr \<times> check) option" "error option" "micro option"
  | LWrite nat "(addr \<times> check) option" "error option"
  | LCall api
  | LAllocate u32
  | LBegin nat api "micro option"
  | LMicro nat micro bool "micro option"
  | LContextClose
  | LClose closing
  | LFrame
  | LReadCheck
  | LPrepare
  | LDisplayEvent
  | LLoad u32 "object option"
  | LBury u32 "object option" bool
  | LRetire u32 bool bool
  | LDrop
  | LCheck object
  | LDeliver addr "(nat \<times> micro) option"
  | LRegistryEvent
  | LHandler
  | LHandlersDone
  | LTake handler_act
  | LEndEvent
  | LFail

text \<open>A sender that loses the claim of its guard leaves the send lock.\<close>

definition lost_claim :: "micro \<Rightarrow> bool \<Rightarrow> bool" where
  "lost_claim w ok \<longleftrightarrow> (case w of ClaimProxy i a \<Rightarrow> \<not> ok | _ \<Rightarrow> False)"

definition leave_lock :: "system \<Rightarrow> nat \<Rightarrow> (nat \<times> job \<times> bool) option" where
  "leave_lock s t = (case s_sending s of Some (u, j, g) \<Rightarrow> if u = t then None else Some (u, j, g) | None \<Rightarrow> None)"

inductive sys_step :: "unix_pkg \<Rightarrow> system \<Rightarrow> label \<Rightarrow> system \<Rightarrow> bool" for U where
  start: "at_rest s t \<Longrightarrow> CheckProxy (s_d s) (Some a) = None \<Longrightarrow>
    encodeRequest (objID (s_d s)) (pid (s_d s) a) (ucast (oc :: u32)) args vals = Inr data \<Longrightarrow>
    sys_step U s (LStart t (Some a)) (s\<lparr>s_jobs := (s_jobs s)(t \<mapsto> \<lparr>j_guard = Some (a, chk), j_data = data, j_fds = fds\<rparr>)\<rparr>)"
| start_raw: "at_rest s t \<Longrightarrow> encodeRequest (objID (s_d s)) ob opc args [] = Inr data \<Longrightarrow>
    sys_step U s (LStart t None) (s\<lparr>s_jobs := (s_jobs s)(t \<mapsto> \<lparr>j_guard = None, j_data = data, j_fds = fds\<rparr>)\<rparr>)"
| refuse: "s_jobs s t = Some j \<Longrightarrow> s_sending s = None \<Longrightarrow> \<not> sendable (s_d s) (j_fds j) \<Longrightarrow>
    sys_step U s (LRefuse t) (s\<lparr>s_jobs := (s_jobs s)(t := None)\<rparr>)"
| enter: "s_jobs s t = Some j \<Longrightarrow> s_sending s = None \<Longrightarrow> sendable (s_d s) (j_fds j) \<Longrightarrow>
    sys_step U s (LEnter t) (s\<lparr>s_jobs := (s_jobs s)(t := None), s_sending := Some (t, j, False)\<rparr>)"
| guard: "s_sending s = Some (t, j, False) \<Longrightarrow> s_micro s t = None \<Longrightarrow> begin_guard (j_guard j) (s_d s) = (r, w) \<Longrightarrow>
    sys_step U s (LGuard t (j_guard j) r w)
      (s\<lparr>s_sending := (if r = None then Some (t, j, True) else None), s_micro := (s_micro s)(t := w)\<rparr>)"
| written: "s_sending s = Some (t, j, True) \<Longrightarrow> s_micro s t = None \<Longrightarrow>
    send_write (s_d s) (j_data j) (j_fds j) = (r, d') \<Longrightarrow>
    sys_step U s (LWrite t (j_guard j) r) (s\<lparr>s_d := d', s_sending := None\<rparr>)"
| call: "local_call x \<Longrightarrow> sys_step U s (LCall x) (s\<lparr>s_d := run_api x (s_d s)\<rparr>)"
| allocate: "\<not> id_locked s \<Longrightarrow> allocateID (s_d s) = (i, d') \<Longrightarrow> sys_step U s (LAllocate i) (s\<lparr>s_d := d'\<rparr>)"
| begin_op: "two_tables x \<Longrightarrow> at_rest s t \<Longrightarrow> begin_op x (s_d s) = w \<Longrightarrow>
    sys_step U s (LBegin t x w) (s\<lparr>s_micro := (s_micro s)(t := w)\<rparr>)"
| micro: "s_micro s t = Some w \<Longrightarrow> micro_step w (s_d s) = (ok, d', n) \<Longrightarrow>
    sys_step U s (LMicro t w ok n)
      (s\<lparr>s_d := d', s_micro := (s_micro s)(t := n), s_sending := (if lost_claim w ok then leave_lock s t else s_sending s)\<rparr>)"
| context_close: "sys_step U s LContextClose (s\<lparr>s_d := (s_d s)\<lparr>d_context := (d_context (s_d s))\<lparr>cx_closed := True\<rparr>\<rparr>\<rparr>)"
| close_mark: "\<not> d_closed (s_d s) \<Longrightarrow>
    sys_step U s (LClose Marked) (s\<lparr>s_d := (s_d s)\<lparr>d_closed := True\<rparr>, s_closing := Marked\<rparr>)"
| close_context: "s_closing s = Marked \<Longrightarrow>
    sys_step U s (LClose ContextMarked)
      (s\<lparr>s_d := (s_d s)\<lparr>d_context := (d_context (s_d s))\<lparr>cx_closed := True\<rparr>\<rparr>, s_closing := ContextMarked\<rparr>)"
| close_socket: "s_closing s = ContextMarked \<Longrightarrow>
    sys_step U s (LClose SocketClosed) (s\<lparr>s_d := (s_d s)\<lparr>d_conn := snd (conn_Close (d_conn (s_d s)))\<rparr>, s_closing := SocketClosed\<rparr>)"
| close_pending: "s_closing s = SocketClosed \<Longrightarrow>
    sys_step U s (LClose Released) (s\<lparr>s_d := closePendingFDs (s_d s), s_closing := Released\<rparr>)"
| frame: "s_ev s = PIdle \<Longrightarrow> \<not> d_closed (s_d s) \<Longrightarrow> nextFrame U (s_d s) = Some (r, d') \<Longrightarrow>
    sys_step U s LFrame (s\<lparr>s_d := d', s_ev := PRead r\<rparr>)"
| read_check: "s_ev s = PRead r \<Longrightarrow>
    sys_step U s LReadCheck (s\<lparr>s_ev :=
      (if d_closed (s_d s) then PIdle else case r of Inl err \<Rightarrow> PFailed err | Inr f \<Rightarrow> PFramed f)\<rparr>)"
| prepare_err: "s_ev s = PFramed f \<Longrightarrow> prepareFrame (s_d s) f = (PErr err, d') \<Longrightarrow>
    sys_step U s LPrepare (s\<lparr>s_d := d', s_ev := PFailed err\<rparr>)"
| prepare: "s_ev s = PFramed f \<Longrightarrow> prepareFrame (s_d s) f = (PObject obj ev, d') \<Longrightarrow>
    sys_step U s LPrepare (s\<lparr>s_d := d', s_ev := PPrepared obj ev (f_object f)\<rparr>)"
| prepare_display: "s_ev s = PFramed f \<Longrightarrow> prepareFrame (s_d s) f = (PDisplay, d') \<Longrightarrow>
    sys_step U s LPrepare (s\<lparr>s_d := d', s_ev := PDisplayEvent f\<rparr>)"
| display_event: "s_ev s = PDisplayEvent f \<Longrightarrow> f_opcode f \<noteq> 1 \<or> length (f_body f) \<noteq> 4 \<Longrightarrow>
    handleDisplayEvent (s_d s) (f_opcode f) (f_body f) = (Some err, d') \<Longrightarrow>
    sys_step U s LDisplayEvent (s\<lparr>s_d := d', s_ev := PFailed err\<rparr>)"
| load: "s_ev s = PDisplayEvent f \<Longrightarrow> f_opcode f = 1 \<Longrightarrow> length (f_body f) = 4 \<Longrightarrow> u32le (f_body f) = i \<Longrightarrow>
    objectAt (s_d s) i = ob \<Longrightarrow>
    sys_step U s (LLoad i ob) (s\<lparr>s_ev := PDeleting i ob\<rparr>)"
| bury: "s_ev s = PDeleting i ob \<Longrightarrow> bury (s_d s) i ob = (ok, d') \<Longrightarrow>
    sys_step U s (LBury i ob ok) (s\<lparr>s_d := d', s_ev := PRetiring i (ob \<noteq> None \<and> \<not> is_zombie_entry ob)\<rparr>)"
| retire: "s_ev s = PRetiring i live \<Longrightarrow> retire (s_d s) i live = (r, d') \<Longrightarrow>
    sys_step U s (LRetire i live (r = None)) (s\<lparr>s_d := d', s_ev := (case r of Some err \<Rightarrow> PFailed err | None \<Rightarrow> PIdle)\<rparr>)"
| drop: "s_ev s = PPrepared obj ev i \<Longrightarrow> is_zombie obj \<or> obj = DisplayObj \<or> objectAt (s_d s) i \<noteq> Some obj \<Longrightarrow>
    sys_step U s LDrop (s\<lparr>s_ev := PHandling ev\<rparr>)"
| check: "s_ev s = PPrepared obj ev i \<Longrightarrow> \<not> is_zombie obj \<Longrightarrow> obj \<noteq> DisplayObj \<Longrightarrow> objectAt (s_d s) i = Some obj \<Longrightarrow>
    sys_step U s (LCheck obj) (s\<lparr>s_ev := PChecked obj ev\<rparr>)"
| deliver_proxy: "s_ev s = PChecked (ProxyObj a) ev \<Longrightarrow>
    p_class (d_heap (s_d s) a) \<noteq> CallbackClass \<or> Opcode ev \<noteq> 0 \<Longrightarrow>
    sys_step U s (LDeliver a None) (s\<lparr>s_d := log_delivery (s_d s) (ToProxy a ev), s_ev := PHandling ev\<rparr>)"
| deliver_callback: "s_ev s = PChecked (ProxyObj a) ev \<Longrightarrow> p_class (d_heap (s_d s) a) = CallbackClass \<Longrightarrow>
    Opcode ev = 0 \<Longrightarrow> at_rest s t \<Longrightarrow> w = DropProxy (pid (s_d s) a) a \<Longrightarrow>
    sys_step U s (LDeliver a (Some (t, w)))
      (s\<lparr>s_d := log_delivery (s_d s) (ToProxy a ev), s_micro := (s_micro s)(t := Some w), s_ev := PUnregistering t ev\<rparr>)"
| callback_done: "s_ev s = PUnregistering t ev \<Longrightarrow> s_micro s t = None \<Longrightarrow>
    sys_step U s LHandlersDone (s\<lparr>s_ev := PHandling ev\<rparr>)"
| registry_global: "s_ev s = PChecked RegistryObj ev \<Longrightarrow> Opcode ev = 0 \<Longrightarrow>
    Event_Uint32 ev = (name, e1) \<Longrightarrow> Event_String e1 = (iface, e2) \<Longrightarrow> Event_Uint32 e2 = (version, e3) \<Longrightarrow>
    sys_step U s LRegistryEvent
      (s\<lparr>s_d := store_global (s_d s) name iface version, s_ev := PGlobal name version (handlers_for (s_d s) iface) e3\<rparr>)"
| registry_remove: "s_ev s = PChecked RegistryObj ev \<Longrightarrow> Opcode ev = 1 \<Longrightarrow> Event_Uint32 ev = (name, e1) \<Longrightarrow>
    sys_step U s LRegistryEvent
      (s\<lparr>s_d := drop_global (s_d s) name, s_ev := PRemove name (r_removeHandlers (d_registry (s_d s))) e1\<rparr>)"
| registry_other: "s_ev s = PChecked RegistryObj ev \<Longrightarrow> Opcode ev \<noteq> 0 \<Longrightarrow> Opcode ev \<noteq> 1 \<Longrightarrow>
    sys_step U s LRegistryEvent (s\<lparr>s_ev := PHandling ev\<rparr>)"
| global_handler: "s_ev s = PGlobal name version (h # hs) ev \<Longrightarrow>
    sys_step U s LHandler (s\<lparr>s_d := call_global_handler idle_app name version h (s_d s), s_ev := PGlobal name version hs ev\<rparr>)"
| remove_handler: "s_ev s = PRemove name (k # ks) ev \<Longrightarrow>
    sys_step U s LHandler (s\<lparr>s_d := log_delivery (s_d s) (ToRemove k \<lparr>gr_name = name\<rparr>), s_ev := PRemove name ks ev\<rparr>)"
| handlers_done: "s_ev s = PGlobal name version [] ev \<or> s_ev s = PRemove name [] ev \<Longrightarrow>
    sys_step U s LHandlersDone (s\<lparr>s_ev := PHandling ev\<rparr>)"
| take_fd: "s_ev s = PHandling ev \<Longrightarrow> x \<in> {TakeFD, CloseFD} \<Longrightarrow> run_act x (ev, s_d s) = (ev', d') \<Longrightarrow>
    sys_step U s (LTake x) (s\<lparr>s_d := d', s_ev := PHandling ev'\<rparr>)"
| end_event: "s_ev s = PHandling ev \<Longrightarrow>
    sys_step U s LEndEvent (s\<lparr>s_d := (s_d s)\<lparr>d_closedFDs := d_closedFDs (s_d s) @ close_fds (ev_fds ev)\<rparr>, s_ev := PIdle\<rparr>)"
| failing: "s_ev s = PFailed err \<Longrightarrow> sys_step U s LFail (s\<lparr>s_d := snd (fail (s_d s) (Some err)), s_ev := PIdle\<rparr>)"

inductive sys_run :: "unix_pkg \<Rightarrow> system \<Rightarrow> label list \<Rightarrow> system \<Rightarrow> bool" for U where
  nil: "sys_run U s [] s"
| cons: "sys_step U s l s1 \<Longrightarrow> sys_run U s1 ls s2 \<Longrightarrow> sys_run U s (l # ls) s2"

inductive_cases sys_run_NilE: "sys_run U s [] s'"
inductive_cases sys_run_ConsE: "sys_run U s (l # ls) s'"
inductive_cases guardE: "sys_step U s (LGuard t g r w) s'"
inductive_cases writeE: "sys_step U s (LWrite t g r) s'"
inductive_cases allocateE: "sys_step U s (LAllocate i) s'"
inductive_cases closeE: "sys_step U s (LClose c) s'"
inductive_cases microE: "sys_step U s (LMicro t w ok n) s'"
inductive_cases checkE: "sys_step U s (LCheck obj) s'"
inductive_cases deliverE: "sys_step U s (LDeliver a th) s'"

text \<open>A system with no goroutine inside the library but the dispatch loop, which is about to read.\<close>

definition initial :: "display \<Rightarrow> system" where
  "initial d = \<lparr>s_d = d, s_jobs = (\<lambda>_. None), s_sending = None, s_micro = (\<lambda>_. None),
     s_closing = (if d_closed d then Released else NotClosed), s_ev = PIdle\<rparr>"

lemma initial_sel [simp]: "s_d (initial d) = d" "s_micro (initial d) = (\<lambda>_. None)" "s_ev (initial d) = PIdle"
    "s_sending (initial d) = None" "s_jobs (initial d) = (\<lambda>_. None)"
  by (simp_all add: initial_def)

lemma sys_run_Cons_iff: "sys_run U s (l # ls) s' \<longleftrightarrow> (\<exists>s1. sys_step U s l s1 \<and> sys_run U s1 ls s')"
  by (auto elim: sys_run_ConsE intro: sys_run.cons)

lemma sys_run_append: "sys_run U s (xs @ ys) s' \<longleftrightarrow> (\<exists>s1. sys_run U s xs s1 \<and> sys_run U s1 ys s')"
  by (induction xs arbitrary: s) (auto simp: sys_run_Cons_iff elim: sys_run_NilE intro: sys_run.nil)

end
