(* ===== verification/Concurrent.thy ===== *)
theory Concurrent
  imports Steps
begin

text \<open>
  The invariants of a connection under every interleaving of theory Steps: the ID bookkeeping, the
  accounting of descriptors and the agreement of the two object tables.
\<close>

section \<open>Invariants\<close>

text \<open>The descriptors of the event in flight.\<close>

fun held :: "phase \<Rightarrow> fd multiset" where
  "held (PPrepared obj ev i) = event_fds ev"
| "held (PChecked obj ev) = event_fds ev"
| "held (PUnregistering t ev) = event_fds ev"
| "held (PGlobal n v hs ev) = event_fds ev"
| "held (PRemove n ks ev) = event_fds ev"
| "held (PHandling ev) = event_fds ev"
| "held _ = {#}"

text \<open>
  A property of the connection that also survives an operation on one table alone, the retiring of an ID
  and the first step of \<^verbatim>\<open>Close\<close> holds in every interleaving.
\<close>

locale system_invariant = connection_invariant +
  assumes mark_closed: "I d \<Longrightarrow> I (d\<lparr>d_closed := True\<rparr>)"
    and proxies: "I d \<Longrightarrow> I (set_proxies d t)"
    and micro_kept: "I d \<Longrightarrow> I (fst (snd (micro_step w d)))"
    and bury_kept: "I d \<Longrightarrow> I (snd (bury d i ob))"
    and retire_kept: "I d \<Longrightarrow> I (snd (retire d i live))"
begin

lemma send_write: "I d \<Longrightarrow> I (snd (send_write d buf fds))"
  using conn_Write [of d buf fds] conn_Close [OF conn_Write, of d buf fds]
  by (simp add: send_write_def Let_def case_prod_beta)

lemma call_global_handler: "I d \<Longrightarrow> I (call_global_handler A n v h d)"
  using call_global_handlers [of d A n v "[h]"] by simp

lemma step:
  assumes "sys_step U s l s'" "I (s_d s)"
  shows "I (s_d s')"
  using assms
proof (cases rule: sys_step.cases)
  case (written t j r d')
  then show ?thesis using assms(2) send_write [of "s_d s" "j_data j" "j_fds j"] by simp
next
  case (allocate i d')
  then show ?thesis using assms(2) allocateID [of "s_d s"] by simp
next
  case (micro t w ok d' n)
  then show ?thesis using assms(2) micro_kept [of "s_d s" w] by simp
next
  case (frame r d')
  then show ?thesis using assms(2) nextFrame by simp
next
  case (prepare_err f err d')
  then show ?thesis using assms(2) prepareFrame [of "s_d s" f] by simp
next
  case (prepare f obj ev d')
  then show ?thesis using assms(2) prepareFrame [of "s_d s" f] by simp
next
  case (prepare_display f d')
  then show ?thesis using assms(2) prepareFrame [of "s_d s" f] by simp
next
  case (display_event f err d')
  then show ?thesis using assms(2) handleDisplayEvent [of "s_d s" "f_opcode f" "f_body f"] by simp
next
  case (bury i ob ok d')
  then show ?thesis using assms(2) bury_kept [of "s_d s" i ob] by simp
next
  case (retire i live r d')
  then show ?thesis using assms(2) retire_kept [of "s_d s" i live] by simp
next
  case (take_fd ev x ev' d')
  then show ?thesis using assms(2) run_acts [of "(ev, s_d s)" "[x]"] by simp
qed (simp_all add: run_api mark_closed cx_closed conn_Close closePendingFDs log_delivery closedFDs fail
    store_global_def drop_global_def globals call_global_handler)

lemma run: "sys_run U s ls s' \<Longrightarrow> I (s_d s) \<Longrightarrow> I (s_d s')"
  by (induction rule: sys_run.induct) (auto intro: step)

end

lemma set_table_state [simp]:
  "id_state (set_proxies d t) = id_state d" "id_state (set_objects d u) = id_state d"
  "fd_state (set_proxies d t) = fd_state d" "fd_state (set_objects d u) = fd_state d"
  by (simp_all add: set_proxies_def set_objects_def id_state_def fd_state_def)

lemma micro_step_state [simp]:
  "id_state (fst (snd (micro_step w d))) = id_state d" "fd_state (fst (snd (micro_step w d))) = fd_state d"
  by (cases w; simp add: case_prod_beta Let_def)+

lemma bury_state [simp]: "id_state (snd (bury d i ob)) = id_state d" "fd_state (snd (bury d i ob)) = fd_state d"
  by (simp_all add: bury_def case_prod_beta Let_def)

lemma retire_state:
  "fd_state (snd (retire d i live)) = fd_state d" "tab_state (snd (retire d i live)) = tab_state d"
  "id_state (snd (retire d i live)) =
     (if fst (retire d i live) = None then (d_nextID d, d_freeIDs d @ [i], insert i (d_retiredIDs d)) else id_state d)"
  "fst (retire d i live) = None \<longleftrightarrow> 2 \<le> i \<and> i < 0xff000000 \<and> i < d_nextID d \<and> \<not> live \<and> i \<notin> d_retiredIDs d"
  by (auto simp: retire_def fd_state_def id_state_def tab_state_def not_less not_le)

lemma id_inv_retire: "id_inv d \<Longrightarrow> id_inv (snd (retire d i live))"
  by (auto simp: retire_def id_inv_def not_less not_le)

interpretation id_sys: system_invariant id_inv
proof
  show "id_inv (d\<lparr>d_closed := True\<rparr>)" if "id_inv d" for d using that by (simp add: id_inv_def)
qed (auto simp: id_inv_retire elim: id_inv_cong [THEN iffD1, rotated])

lemma send_write_fd_state [simp]: "fd_state (snd (send_write d buf fds)) = fd_state d"
  by (simp add: send_write_def Let_def case_prod_beta fd_state_def)

lemma log_delivery_fd_state [simp]: "fd_state (log_delivery d x) = fd_state d"
  by (simp add: log_delivery_def fd_state_def)

lemma handleDisplayEvent_fd_state [simp]: "fd_state (snd (handleDisplayEvent d oc b)) = fd_state d"
  by (simp add: handleDisplayEvent_def Let_def case_prod_beta frame_simps split: option.splits)

text \<open>The accessors leave the descriptors in the event.\<close>

lemma event_fds_accessors:
  "Event_Uint32 e = (x, e') \<Longrightarrow> event_fds e' = event_fds e" "Event_String e = (y, e') \<Longrightarrow> event_fds e' = event_fds e"
  by (auto simp: event_fds_def Event_Uint32_def Event_String_def Let_def split: if_splits)

lemma conserved_cong:
  "fd_state d' = fd_state d \<Longrightarrow> fds_conserved h d \<Longrightarrow> fds_conserved h d'"
  using fds_conserved_cong by blast

lemma sys_step_fds:
  assumes "sys_step U s l s'" "fds_conserved (held (s_ev s)) (s_d s)"
  shows "fds_conserved (held (s_ev s')) (s_d s')"
  using assms(1)
proof (cases rule: sys_step.cases)
  case (written t j r d')
  have "fd_state d' = fd_state (s_d s)" using send_write_fd_state [of "s_d s" "j_data j" "j_fds j"] written by simp
  then show ?thesis using written assms(2) conserved_cong by simp
next
  case (call x)
  then show ?thesis using assms(2) fd_api.run_api by simp
next
  case (allocate i d')
  then show ?thesis using assms(2) fd_api.run_api [of "held (s_ev s)" "s_d s" ApiAllocateID] by simp
next
  case (micro t w ok d' n)
  have "fd_state d' = fd_state (s_d s)" using micro_step_state(2) [of w "s_d s"] micro by simp
  then show ?thesis using micro assms(2) conserved_cong by simp
next
  case close_pending
  then show ?thesis using assms(2) by (simp add: fds_conserved_closePending)
next
  case (frame r d')
  then show ?thesis using assms(2) fd_recv.nextFrame [of U "s_d s" r d' "{#}"] by simp
next
  case (read_check r)
  then show ?thesis using assms(2) by (simp split: sum.split)
next
  case (prepare_err f err d')
  then show ?thesis using assms(2) prepareFrame_conserved [of "s_d s" f] by simp
next
  case (prepare f obj ev d')
  then show ?thesis using assms(2) prepareFrame_conserved [of "s_d s" f] by simp
next
  case (prepare_display f d')
  then show ?thesis using assms(2) prepareFrame_conserved [of "s_d s" f] by simp
next
  case (display_event f err d')
  then show ?thesis
    using assms(2) conserved_cong [of d' "s_d s"] handleDisplayEvent_fd_state [of "s_d s" "f_opcode f" "f_body f"] by simp
next
  case (bury i ob ok d')
  then show ?thesis using assms(2) conserved_cong [of d' "s_d s"] bury_state(2) [of "s_d s" i ob] by simp
next
  case (retire i live r d')
  then show ?thesis
    using assms(2) conserved_cong [of d' "s_d s"] retire_state(1) [of "s_d s" i live] by (simp split: option.split)
next
  case (registry_global ev name e1 iface e2 version e3)
  then show ?thesis
    using assms(2) event_fds_accessors by (simp add: store_global_def fds_conserved_def)
next
  case (registry_remove ev name e1)
  then show ?thesis using assms(2) event_fds_accessors by (simp add: drop_global_def fds_conserved_def)
next
  case (global_handler name version h hs ev)
  then show ?thesis
    using assms(2) fd_api.call_global_handlers [of "event_fds ev" "s_d s" idle_app name version "[h]"] by simp
next
  case (handlers_done name version ev)
  then show ?thesis using assms(2) by auto
next
  case (take_fd ev x ev' d')
  then show ?thesis using assms(2) run_act_conserved by simp
next
  case (end_event ev)
  then show ?thesis using assms(2) by (simp add: fds_conserved_def event_fds_def add_ac)
next
  case (failing err)
  then show ?thesis using assms(2) fail_conserved by simp
qed (use assms(2) in \<open>simp_all add: fds_conserved_def log_delivery_def\<close>)

section \<open>The two tables\<close>

text \<open>
  Between its operations on the tables an operation leaves them different at its ID. The tables agree at every ID
  without such an operation in progress, provided that no two operations on the same ID overlap.
\<close>

fun starts :: "label \<Rightarrow> (nat \<times> micro) option" where
  "starts (LGuard t g r w) = map_option (Pair t) w"
| "starts (LBegin t x w) = map_option (Pair t) w"
| "starts (LDeliver a tw) = tw"
| "starts _ = None"

text \<open>How a step changes the set of operations in progress.\<close>

fun progress :: "label \<Rightarrow> (nat \<times> micro) set \<Rightarrow> (nat \<times> micro) set" where
  "progress (LMicro t w ok n) P = P - {(t, w)} \<union> set_option (map_option (Pair t) n)"
| "progress l P = P \<union> set_option (starts l)"

text \<open>No operation starts on an ID with an operation in progress; \<open>P\<close> holds those in progress.\<close>

fun orderly :: "(nat \<times> micro) set \<Rightarrow> label list \<Rightarrow> bool" where
  "orderly P [] = True"
| "orderly P (l # ls) =
     ((case starts l of None \<Rightarrow> True | Some (t, w) \<Rightarrow> micro_id w \<notin> (micro_id \<circ> snd) ` P) \<and> orderly (progress l P) ls)"

definition in_progress :: "system \<Rightarrow> (nat \<times> micro) set" where
  "in_progress s = {(t, w). s_micro s t = Some w}"

definition agree_at :: "display \<Rightarrow> u32 \<Rightarrow> bool" where
  "agree_at d i \<longleftrightarrow> (\<forall>a. proxyAt d i = Some a \<longleftrightarrow> objectAt d i = Some (ProxyObj a))"

text \<open>What an operation in progress knows of the tables at its ID.\<close>

fun micro_ok :: "display \<Rightarrow> micro \<Rightarrow> bool" where
  "micro_ok d (StoreObj i a) = (proxyAt d i = Some a)"
| "micro_ok d (SwapObj i a) = (proxyAt d i = None \<and> objectAt d i = Some (ProxyObj a))"
| "micro_ok d (DropObj i a) =
     (proxyAt d i = None \<and> objectAt d i = Some (ProxyObj a) \<or> agree_at d i \<and> proxyAt d i \<noteq> Some a)"
| "micro_ok d (DeleteObj i) = (proxyAt d i = None)"
| "micro_ok d w = agree_at d (micro_id w)"

fun first_micro :: "micro \<Rightarrow> bool" where
  "first_micro (StoreObj i a) = False"
| "first_micro (SwapObj i a) = False"
| "first_micro (DropObj i a) = False"
| "first_micro (DeleteObj i) = False"
| "first_micro w = True"

definition sys_tables :: "system \<Rightarrow> bool" where
  "sys_tables s \<longleftrightarrow>
     (\<forall>(t, w) \<in> in_progress s. micro_ok (s_d s) w) \<and> inj_on (micro_id \<circ> snd) (in_progress s) \<and>
     (\<forall>i. i \<notin> (micro_id \<circ> snd) ` in_progress s \<longrightarrow> agree_at (s_d s) i)"

lemma first_micro_ok: "first_micro w \<Longrightarrow> micro_ok d w = agree_at d (micro_id w)"
  by (cases w) simp_all

lemma begin_first: "begin_op x d = Some w \<Longrightarrow> first_micro w" "begin_guard g d = (r, Some w) \<Longrightarrow> first_micro w"
  by (cases "(x, d)" rule: begin_op.cases; auto simp: begin_claim_def split: if_splits option.splits)
     (cases "(g, d)" rule: begin_guard.cases; auto simp: begin_claim_def split: option.splits)

lemma in_progress_step:
  assumes "sys_step U s l s'"
  shows "in_progress s' = progress l (in_progress s)"
    and "starts l = Some (t, w) \<Longrightarrow> s_micro s t = None \<and> first_micro w"
  using assms by (cases rule: sys_step.cases; auto simp: in_progress_def at_rest_def begin_first split: if_splits)+

text \<open>One operation leaves the entries of all other IDs alone and its own ones as the next one expects them.\<close>

lemma micro_step_tables:
  assumes "micro_step w d = (ok, d', n)" "micro_ok d w"
  shows "case n of None \<Rightarrow> agree_at d' (micro_id w) | Some v \<Rightarrow> micro_id v = micro_id w \<and> micro_ok d' v"
    and "i \<noteq> micro_id w \<Longrightarrow> proxyAt d' i = proxyAt d i \<and> objectAt d' i = objectAt d i"
proof -
  have d': "d' = fst (snd (micro_step w d))" and n: "n = snd (snd (micro_step w d))" using assms(1) by simp_all
  show "case n of None \<Rightarrow> agree_at d' (micro_id w) | Some v \<Rightarrow> micro_id v = micro_id w \<and> micro_ok d' v"
    unfolding d' n using assms(2)
    by (cases w) (auto simp: agree_at_def set_proxies_def set_objects_def case_prod_beta Let_def)
  show "i \<noteq> micro_id w \<Longrightarrow> proxyAt d' i = proxyAt d i \<and> objectAt d' i = objectAt d i"
    unfolding d' by (cases w) (simp_all add: set_proxies_def set_objects_def case_prod_beta Let_def)
qed

text \<open>All other steps leave the tables alone, but for zombies that \<^verbatim>\<open>delete_id\<close> removes.\<close>

definition keeps_tables :: "display \<Rightarrow> display \<Rightarrow> bool" where
  "keeps_tables d d' \<longleftrightarrow>
     (\<forall>i. proxyAt d' i = proxyAt d i \<and>
        (objectAt d' i = objectAt d i \<or> objectAt d' i = None \<and> (\<exists>a. objectAt d i = Some (ZombieObj a))))"

lemma keeps_tables_cong: "tab_state d' = tab_state d \<Longrightarrow> keeps_tables d d'"
  by (simp add: keeps_tables_def tab_state_def)

lemma keeps_tables_bury: "keeps_tables d (snd (bury d i ob))"
  by (auto simp: keeps_tables_def bury_def is_zombie_entry_def set_objects_def CompareAndDelete_def Let_def
      split: option.splits object.splits)

lemma keeps_tables_ok:
  assumes "keeps_tables d d'"
  shows "agree_at d i \<Longrightarrow> agree_at d' i" "micro_ok d w \<Longrightarrow> micro_ok d' w"
proof -
  have k: "proxyAt d' j = proxyAt d j"
    "objectAt d' j = Some (ProxyObj a) \<longleftrightarrow> objectAt d j = Some (ProxyObj a)" for j a
    using assms unfolding keeps_tables_def by (metis, metis object.distinct option.distinct(1) option.inject)
  then show "agree_at d i \<Longrightarrow> agree_at d' i" by (simp add: agree_at_def)
  show "micro_ok d w \<Longrightarrow> micro_ok d' w" using k by (cases w) (simp_all add: agree_at_def)
qed

lemma quiet_tab_state:
  "local_call x \<Longrightarrow> tab_state (run_api x d) = tab_state d"
  "tab_state (snd (send_write d buf fds)) = tab_state d"
  "tab_state (snd (prepareFrame d f)) = tab_state d" "tab_state (log_delivery d y) = tab_state d"
  "tab_state (snd (fail d e)) = tab_state d" "tab_state (closePendingFDs d) = tab_state d"
  "tab_state (call_global_handler idle_app n v h d) = tab_state d"
proof -
  show "local_call x \<Longrightarrow> tab_state (run_api x d) = tab_state d"
    by (cases x) (simp_all add: tab_state_def new_proxy_def SetID_def SetContext_def SetVersion_def Let_def
        AddHandler_def AddGlobalHandler_def AddGlobalRemoveHandler_def RegisterEventSignature_def split: option.split)
  show "tab_state (call_global_handler idle_app n v h d) = tab_state d"
    by (cases h) (simp_all add: idle_app_def tab_state_def log_delivery_def Let_def split: option.split)
qed (simp_all add: tab_state_def send_write_def closePendingFDs_def prepareFrame_def log_delivery_def
      fail_def Let_def case_prod_beta split: option.split)

lemma handleDisplayEvent_tab_state:
  "oc \<noteq> 1 \<or> length b \<noteq> 4 \<Longrightarrow> tab_state (snd (handleDisplayEvent d oc b)) = tab_state d"
  by (auto simp: handleDisplayEvent_def Let_def case_prod_beta split: option.splits)

lemma quiet_step_tables:
  assumes "sys_step U s l s'" "\<forall>t w ok n. l \<noteq> LMicro t w ok n"
  shows "keeps_tables (s_d s) (s_d s')"
proof -
  have refl: "keeps_tables d d" for d by (simp add: keeps_tables_def)
  show ?thesis using assms(1)
  proof (cases rule: sys_step.cases)
    case (written t j r d')
    then show ?thesis using quiet_tab_state(2) [of "s_d s" "j_data j" "j_fds j"] keeps_tables_cong by simp
  next
    case (allocate i d')
    have "tab_state (snd (allocateID (s_d s))) = tab_state (s_d s)" by (simp add: frame_simps)
    then show ?thesis using allocate keeps_tables_cong by simp
  next
    case (frame r d')
    have "core d' = core (s_d s)" using core_recv.nextFrame [OF frame(5)] by blast
    then show ?thesis using frame keeps_tables_cong [of d' "s_d s"] by (simp add: core_def tab_state_def)
  next
    case (prepare_err f err d')
    then show ?thesis using quiet_tab_state(3) [of "s_d s" f] keeps_tables_cong by simp
  next
    case (prepare f obj ev d')
    then show ?thesis using quiet_tab_state(3) [of "s_d s" f] keeps_tables_cong by simp
  next
    case (prepare_display f d')
    then show ?thesis using quiet_tab_state(3) [of "s_d s" f] keeps_tables_cong by simp
  next
    case (display_event f err d')
    then show ?thesis
      using handleDisplayEvent_tab_state [of "f_opcode f" "f_body f" "s_d s"] keeps_tables_cong by simp
  next
    case (bury i ob ok d')
    then show ?thesis using keeps_tables_bury [of "s_d s" i ob] by simp
  next
    case (retire i live r d')
    then show ?thesis using retire_state(2) [of "s_d s" i live] keeps_tables_cong by simp
  next
    case (take_fd ev x ev' d')
    then have "tab_state d' = tab_state (s_d s)"
      by (auto simp: Let_def case_prod_beta tab_state_def split: sum.splits)
    then show ?thesis using take_fd keeps_tables_cong by simp
  qed (use assms(2) in \<open>auto simp: quiet_tab_state refl intro!: keeps_tables_cong, auto simp: tab_state_def store_global_def drop_global_def\<close>)
qed

lemma micro_ok_local:
  assumes "proxyAt d' (micro_id w) = proxyAt d (micro_id w)" "objectAt d' (micro_id w) = objectAt d (micro_id w)"
  shows "micro_ok d' w = micro_ok d w"
  using assms by (cases w) (simp_all add: agree_at_def)

lemma progress_start: "\<forall>t w ok n. l \<noteq> LMicro t w ok n \<Longrightarrow> progress l P = P \<union> set_option (starts l)"
  by (cases "(l, P)" rule: progress.cases) auto

lemma sys_tables_start:
  assumes "sys_step U s l s'" "sys_tables s" "\<forall>t w ok n. l \<noteq> LMicro t w ok n"
    and "case starts l of None \<Rightarrow> True | Some (t, w) \<Rightarrow> micro_id w \<notin> (micro_id \<circ> snd) ` in_progress s"
  shows "sys_tables s'"
proof -
  have P: "in_progress s' = in_progress s \<union> set_option (starts l)"
    using in_progress_step(1) [OF assms(1)] progress_start assms(3) by simp
  note k = keeps_tables_ok [OF quiet_step_tables [OF assms(1,3)]]
  have "micro_ok (s_d s') w" if "(t, w) \<in> in_progress s'" for t w
  proof (cases "starts l = Some (t, w)")
    case True
    then have "agree_at (s_d s) (micro_id w)" "first_micro w"
      using assms(2,4) in_progress_step(2) [OF assms(1)] by (auto simp: sys_tables_def)
    then show ?thesis using k(1) first_micro_ok by simp
  next
    case False
    then show ?thesis using that assms(2) k(2) by (auto simp: P sys_tables_def)
  qed
  moreover have "inj_on (micro_id \<circ> snd) (in_progress s')"
  proof (cases "starts l")
    case (Some x)
    then have "(micro_id \<circ> snd) x \<notin> (micro_id \<circ> snd) ` in_progress s" using assms(4) by (cases x) simp
    then show ?thesis using assms(2) Some by (simp add: P sys_tables_def) blast
  qed (use assms(2) in \<open>simp add: P sys_tables_def\<close>)
  moreover have "agree_at (s_d s') i" if "i \<notin> (micro_id \<circ> snd) ` in_progress s'" for i
    using that assms(2) k(1) by (simp add: sys_tables_def P image_Un)
  ultimately show ?thesis unfolding sys_tables_def by blast
qed

lemma sys_tables_micro:
  assumes "sys_step U s (LMicro t w ok n) s'" "sys_tables s"
  shows "sys_tables s'"
proof -
  have tw: "(t, w) \<in> in_progress s" and d': "micro_step w (s_d s) = (ok, s_d s', n)"
    using assms(1) by (auto simp: in_progress_def elim!: microE)
  have P: "in_progress s' = in_progress s - {(t, w)} \<union> set_option (map_option (Pair t) n)"
    using in_progress_step(1) [OF assms(1)] by simp
  have inj: "inj_on (micro_id \<circ> snd) (in_progress s)" using assms(2) by (simp add: sys_tables_def)
  have "micro_ok (s_d s) w" using assms(2) tw by (auto simp: sys_tables_def)
  note f = micro_step_tables [OF d' this]
  have other: "micro_id v \<noteq> micro_id w" if "(u, v) \<in> in_progress s - {(t, w)}" for u v
    using that inj_onD [OF inj _ _ tw, of "(u, v)"] by auto
  have "micro_ok (s_d s') v" if "(u, v) \<in> in_progress s'" for u v
  proof (cases "(u, v) \<in> in_progress s - {(t, w)}")
    case True
    then show ?thesis using assms(2) other [OF True] f(2) micro_ok_local [of "s_d s'" v "s_d s"] by (auto simp: sys_tables_def)
  next
    case False
    then show ?thesis using that f(1) by (auto simp: P)
  qed
  moreover have "inj_on (micro_id \<circ> snd) (in_progress s')"
  proof -
    have "inj_on (micro_id \<circ> snd) (in_progress s - {(t, w)})" using inj by (rule inj_on_subset) auto
    moreover have "micro_id w \<notin> (micro_id \<circ> snd) ` (in_progress s - {(t, w)})" using other by fastforce
    ultimately show ?thesis using f(1) by (cases n) (auto simp: P)
  qed
  moreover have "agree_at (s_d s') i" if "i \<notin> (micro_id \<circ> snd) ` in_progress s'" for i
  proof (cases "i = micro_id w")
    case True
    then show ?thesis using that f(1) by (cases n) (auto simp: P)
  next
    case False
    then have "i \<notin> (micro_id \<circ> snd) ` in_progress s" using that by (auto simp: P)
    then show ?thesis using assms(2) f(2) [OF False] by (simp add: sys_tables_def agree_at_def)
  qed
  ultimately show ?thesis unfolding sys_tables_def by blast
qed

lemma sys_tables_run:
  assumes "sys_run U s ls s'" "sys_tables s" "orderly (in_progress s) ls"
  shows "sys_tables s'"
  using assms
proof (induction rule: sys_run.induct)
  case (cons s l s1 ls s2)
  have "sys_tables s1"
  proof (cases "\<exists>t w ok n. l = LMicro t w ok n")
    case True
    then show ?thesis using sys_tables_micro cons.hyps(1) cons.prems(1) by blast
  next
    case False
    then show ?thesis using sys_tables_start [OF cons.hyps(1) cons.prems(1)] cons.prems(2) by simp
  qed
  then show ?case using cons.IH cons.prems(2) in_progress_step(1) [OF cons.hyps(1)] by simp
qed

section \<open>Properties\<close>

lemma initial_tables: "tables_inv d \<Longrightarrow> sys_tables (initial d)" "in_progress (initial d) = {}"
  by (simp_all add: sys_tables_def in_progress_def agree_at_def tables_inv_def)

text \<open>
  C2: the invariants of a session survive concurrency. However the steps of any number of
  senders, of the dispatch loop, of handlers and of \<^verbatim>\<open>Close\<close> interleave, the ID
  bookkeeping stays consistent, and every received descriptor is
  pending, in the event in flight, closed or taken, exactly once. If no two operations on
  the same ID overlap, the two tables also agree at every ID without an operation in progress.
\<close>

theorem interleaved_invariant:
  assumes "session U d" "sys_run U (initial d) ls s"
  shows "id_inv (s_d s) \<and> fds_conserved (held (s_ev s)) (s_d s) \<and>
    (if orderly {} ls then \<forall>i. i \<notin> (micro_id \<circ> snd) ` in_progress s \<longrightarrow> agree_at (s_d s) i else True)"
proof -
  have "fds_conserved (held (s_ev x)) (s_d x) \<Longrightarrow> fds_conserved (held (s_ev s)) (s_d s)" if "sys_run U x ls s" for x
    using that by induction (auto intro: sys_step_fds)
  then have "fds_conserved (held (s_ev s)) (s_d s)" using assms session_fds by fastforce
  moreover have "id_inv (s_d s)" using id_sys.run [OF assms(2)] session_ids [OF assms(1)] by simp
  moreover have "sys_tables s" if "orderly {} ls"
    using that sys_tables_run [OF assms(2)] initial_tables session_tables [OF assms(1)] by simp
  ultimately show ?thesis by (simp add: sys_tables_def)
qed

text \<open>A goroutine allocates an ID, another one begins to close the connection.\<close>

lemma connected_open: "\<not> d_closed connected" "\<not> cx_closed (d_context connected)"
  by (simp_all add: connected_def ConnectFromConn_def op_defs encodeRequest_def
      putUint32_def HeaderSize_def sendmsgWithFDs_def conn_Write_def idle_conn_def)

theorem interleaved_invariant_witness:
  "\<exists>s. sys_run linux_unix (initial connected) [LAllocate (fst (allocateID connected)), LClose Marked] s \<and>
     d_closed (s_d s) \<and> id_inv (s_d s) \<and> fds_conserved {#} (s_d s) \<and> (\<forall>i. agree_at (s_d s) i)"
proof -
  let ?s0 = "initial connected" and ?i = "fst (allocateID connected)" and ?d1 = "snd (allocateID connected)"
  let ?s1 = "?s0\<lparr>s_d := ?d1\<rparr>"
  let ?s2 = "?s1\<lparr>s_d := ?d1\<lparr>d_closed := True\<rparr>, s_closing := Marked\<rparr>"
  have 1: "sys_step linux_unix ?s0 (LAllocate ?i) ?s1" by (rule sys_step.allocate) (simp_all add: id_locked_def)
  have "\<not> d_closed (s_d ?s1)" using connected_open by (simp add: allocateID_def Let_def)
  from sys_step.close_mark [OF this] have 2: "sys_step linux_unix ?s1 (LClose Marked) ?s2" by simp
  have r: "sys_run linux_unix ?s0 [LAllocate ?i, LClose Marked] ?s2"
    by (intro sys_run.cons [OF 1] sys_run.cons [OF 2] sys_run.nil)
  show ?thesis
    using interleaved_invariant [OF connected_session r] r by (intro exI [of _ ?s2]) (simp add: in_progress_def)
qed

text \<open>An operation that is not a lost claim leaves the sender alone.\<close>

lemma micro_ordinary:
  "s_micro s t = Some w \<Longrightarrow> micro_step w (s_d s) = (ok, d', n) \<Longrightarrow> \<not> lost_claim w ok \<Longrightarrow>
   sys_step U s (LMicro t w ok n) (s\<lparr>s_d := d', s_micro := (s_micro s)(t := n)\<rparr>)"
  using sys_step.micro [of s t w ok d' n U] by simp

text \<open>
  The side condition is needed: when \<^verbatim>\<open>Unregister\<close> of a proxy runs between the two operations of its \<^verbatim>\<open>Register\<close>,
  the display's table keeps an entry that the context's table does not have.
\<close>

lemma overlap_breaks_tables:
  fixes d :: display
  assumes "pid d a = i" "i \<noteq> 0" "\<not> cx_closed (d_context d)" "p_context (d_heap d a) = Some (cx_ref (d_context d))"
    and "proxyAt d i = None" "objectAt d i = None"
  shows "\<exists>s ls. sys_run U (initial d) ls s \<and> in_progress s = {} \<and> proxyAt (s_d s) i = None \<and>
    objectAt (s_d s) i = Some (ProxyObj a)"
proof -
  let ?st = "\<lambda>d0 h. (initial d)\<lparr>s_d := d0, s_micro := h\<rparr>"
  let ?d1 = "set_proxies d (Store (cx_proxies (d_context d)) i a)"
  let ?d2 = "set_proxies ?d1 (Delete (cx_proxies (d_context ?d1)) i)"
  let ?d3 = "set_objects ?d2 (Store (d_objects ?d2) i (ProxyObj a))"
  have 1: "sys_step U (?st d Map.empty) (LBegin 0 (ApiRegister (Some a)) (Some (StoreProxy i a))) (?st d [0 \<mapsto> StoreProxy i a])"
    using sys_step.begin_op [of "ApiRegister (Some a)" "?st d Map.empty" 0 "Some (StoreProxy i a)" U] assms
    by (simp add: at_rest_def)
  have 2: "sys_step U (?st d [0 \<mapsto> StoreProxy i a]) (LMicro 0 (StoreProxy i a) True (Some (StoreObj i a)))
      (?st ?d1 [0 \<mapsto> StoreObj i a])"
    using micro_ordinary [of "?st d [0 \<mapsto> StoreProxy i a]" 0 "StoreProxy i a" True ?d1 "Some (StoreObj i a)" U]
    by (simp add: lost_claim_def)
  have 3: "sys_step U (?st ?d1 [0 \<mapsto> StoreObj i a]) (LBegin 1 (ApiUnregister (Some a)) (Some (DropProxy i a)))
      (?st ?d1 [0 \<mapsto> StoreObj i a, 1 \<mapsto> DropProxy i a])"
    using sys_step.begin_op [of "ApiUnregister (Some a)" "?st ?d1 [0 \<mapsto> StoreObj i a]" 1 "Some (DropProxy i a)" U] assms(1)
    by (simp add: at_rest_def set_proxies_def)
  have 4: "sys_step U (?st ?d1 [0 \<mapsto> StoreObj i a, 1 \<mapsto> DropProxy i a]) (LMicro 1 (DropProxy i a) True (Some (DropObj i a)))
      (?st ?d2 [0 \<mapsto> StoreObj i a, 1 \<mapsto> DropObj i a])"
    using micro_ordinary [of "?st ?d1 [0 \<mapsto> StoreObj i a, 1 \<mapsto> DropProxy i a]" 1 "DropProxy i a" True ?d2 "Some (DropObj i a)" U]
    by (simp add: lost_claim_def CompareAndDelete_def set_proxies_def)
  have 5: "sys_step U (?st ?d2 [0 \<mapsto> StoreObj i a, 1 \<mapsto> DropObj i a]) (LMicro 1 (DropObj i a) False None)
      (?st ?d2 [0 \<mapsto> StoreObj i a])"
    using micro_ordinary [of "?st ?d2 [0 \<mapsto> StoreObj i a, 1 \<mapsto> DropObj i a]" 1 "DropObj i a" False ?d2 None U] assms(6)
    by (simp add: lost_claim_def CompareAndDelete_def set_proxies_def set_objects_def fun_upd_twist)
  have 6: "sys_step U (?st ?d2 [0 \<mapsto> StoreObj i a]) (LMicro 0 (StoreObj i a) True None) (?st ?d3 Map.empty)"
    using micro_ordinary [of "?st ?d2 [0 \<mapsto> StoreObj i a]" 0 "StoreObj i a" True ?d3 None U]
    by (simp add: lost_claim_def)
  have "?st d Map.empty = initial d" by (simp add: initial_def)
  note run = sys_run.cons [OF 1 [unfolded this] sys_run.cons [OF 2 sys_run.cons [OF 3 sys_run.cons [OF 4
      sys_run.cons [OF 5 sys_run.cons [OF 6 sys_run.nil]]]]]]
  moreover have "in_progress (?st ?d3 Map.empty) = {}" by (simp add: in_progress_def)
  moreover have "proxyAt (s_d (?st ?d3 Map.empty)) i = None" "objectAt (s_d (?st ?d3 Map.empty)) i = Some (ProxyObj a)"
    by (simp_all add: set_proxies_def set_objects_def)
  ultimately show ?thesis by blast
qed

end
