(* ===== verification/Destruction.thy ===== *)
theory Destruction
  imports Concurrent
begin

text \<open>
  Destroyed objects under concurrency: a destructor is written at most once, and no event is
  delivered to an object once its claim is complete, except one that had passed
  the last check before; and that exception happens.
\<close>

section \<open>A claimed proxy stays out of the context's table\<close>

text \<open>The proxy is not in the table and no registration is about to put it there.\<close>

definition unregistered :: "addr \<Rightarrow> system \<Rightarrow> bool" where
  "unregistered a s \<longleftrightarrow> (\<forall>i. proxyAt (s_d s) i \<noteq> Some a) \<and> (\<forall>t i. s_micro s t \<noteq> Some (StoreProxy i a))"

text \<open>The label with which an application begins to put a proxy back.\<close>

fun registers :: "addr \<Rightarrow> label \<Rightarrow> bool" where
  "registers a (LBegin t (ApiRegister p) w) = (p = Some a)"
| "registers a _ = False"

lemma begin_store:
  "begin_op x d = Some (StoreProxy i a) \<Longrightarrow> x = ApiRegister (Some a)" "begin_op x d \<noteq> Some (StoreObj i a)"
  by (cases "(x, d)" rule: begin_op.cases; force simp: begin_claim_def split: if_splits option.splits)+

lemma guard_store: "begin_guard g d \<noteq> (r, Some (StoreProxy i a))" "begin_guard g d \<noteq> (r, Some (StoreObj i a))"
  by (cases "(g, d)" rule: begin_guard.cases; force simp: begin_claim_def split: option.splits)+

lemma micro_store:
  assumes "micro_step w d = (ok, d', n)"
  shows "n \<noteq> Some (StoreProxy i a)" "n = Some (StoreObj i a) \<Longrightarrow> w = StoreProxy i a"
proof -
  have "n = snd (snd (micro_step w d))" using assms by simp
  then have "n \<noteq> Some (StoreProxy i a) \<and> (n = Some (StoreObj i a) \<longrightarrow> w = StoreProxy i a)"
    by (cases w) (simp_all add: case_prod_beta Let_def)
  then show "n \<noteq> Some (StoreProxy i a)" "n = Some (StoreObj i a) \<Longrightarrow> w = StoreProxy i a" by blast+
qed

text \<open>Only a registration leads to the storing of a proxy.\<close>

lemma store_step:
  assumes "sys_step U s l s'" "\<not> registers a l"
  shows "s_micro s' t = Some (StoreProxy i a) \<Longrightarrow> s_micro s t = Some (StoreProxy i a)"
    and "s_micro s' t = Some (StoreObj i a) \<Longrightarrow> s_micro s t = Some (StoreObj i a) \<or> s_micro s t = Some (StoreProxy i a)"
proof -
  have "(\<forall>t i. s_micro s' t = Some (StoreProxy i a) \<longrightarrow> s_micro s t = Some (StoreProxy i a)) \<and>
    (\<forall>t i. s_micro s' t = Some (StoreObj i a) \<longrightarrow> s_micro s t = Some (StoreObj i a) \<or> s_micro s t = Some (StoreProxy i a))"
    using assms(1)
  proof (cases rule: sys_step.cases)
    case (guard u j r w)
    then show ?thesis using guard_store [of "j_guard j" "s_d s" r] by simp
  next
    case (begin_op x u w)
    then have "w \<noteq> Some (StoreProxy i a)" "w \<noteq> Some (StoreObj i a)" for i
      using assms(2) begin_store [of x "s_d s" _ a] by auto
    then show ?thesis using begin_op by simp
  next
    case (micro u w ok d' n)
    then show ?thesis using micro_store [OF micro(4)] by simp
  qed simp_all
  then show "s_micro s' t = Some (StoreProxy i a) \<Longrightarrow> s_micro s t = Some (StoreProxy i a)"
    "s_micro s' t = Some (StoreObj i a) \<Longrightarrow> s_micro s t = Some (StoreObj i a) \<or> s_micro s t = Some (StoreProxy i a)"
    by blast+
qed

lemma micro_proxies:
  assumes "micro_step w d = (ok, d', n)" "\<forall>i. w \<noteq> StoreProxy i a" "proxyAt d' j = Some a"
  shows "proxyAt d j = Some a"
proof -
  have "proxyAt (fst (snd (micro_step w d))) j = Some a" using assms(1,3) by simp
  then show ?thesis
    using assms(2) by (cases w) (auto simp: set_proxies_def set_objects_def case_prod_beta Let_def split: if_splits)
qed

lemma unregistered_step:
  assumes "sys_step U s l s'" "unregistered a s" "\<not> registers a l"
  shows "unregistered a s'"
proof -
  have "proxyAt (s_d s') i \<noteq> Some a" for i
  proof (cases "\<exists>t w ok n. l = LMicro t w ok n")
    case True
    then obtain t w ok n where l: "l = LMicro t w ok n" by blast
    then have "s_micro s t = Some w" "micro_step w (s_d s) = (ok, s_d s', n)" using assms(1) by (auto elim!: microE)
    then show ?thesis using micro_proxies assms(2) unfolding unregistered_def by metis
  next
    case False
    then show ?thesis
      using quiet_step_tables [OF assms(1)] assms(2) by (simp add: keeps_tables_def unregistered_def)
  qed
  then show ?thesis using assms(2) store_step(1) [OF assms(1,3)] unfolding unregistered_def by blast
qed

text \<open>A guard on the proxy that passes, and a claim of the proxy that is won.\<close>

fun admits :: "addr \<Rightarrow> label \<Rightarrow> bool" where
  "admits a (LGuard t (Some (b, c)) None w) = (b = a)"
| "admits a (LMicro t (ClaimProxy i b) True n) = (b = a)"
| "admits a _ = False"

lemma admits_registered: "sys_step U s l s' \<Longrightarrow> admits a l \<Longrightarrow> \<not> unregistered a s"
proof (cases "(a, l)" rule: admits.cases)
  case (1 a' t b c w)
  assume "sys_step U s l s'" "admits a l"
  then have "fst (begin_guard (Some (a, c)) (s_d s)) = None" using 1 by (auto elim!: guardE)
  then have "CheckProxy (s_d s) (Some a) = None" by (cases c) (auto simp: begin_claim_def split: option.splits)
  then show ?thesis by (auto simp: CheckProxy_None unregistered_def)
next
  case (2 a' t i b n)
  assume "sys_step U s l s'" "admits a l"
  then have "micro_step (ClaimProxy i a) (s_d s) = (True, s_d s', n)" using 2 by (auto elim!: microE)
  then have "fst (CompareAndDelete (cx_proxies (d_context (s_d s))) i a)" by (simp add: case_prod_beta Let_def)
  then show ?thesis by (auto simp: unregistered_def)
qed auto

lemma unregistered_run:
  assumes "sys_run U s ls s'" "unregistered a s" "\<forall>l \<in> set ls. \<not> registers a l"
  shows "\<forall>l \<in> set ls. \<not> admits a l"
  using assms
proof induction
  case (cons s l s1 ls s2)
  have "\<not> admits a l" using admits_registered cons.hyps(1) cons.prems(1) by blast
  moreover have "unregistered a s1" using unregistered_step [OF cons.hyps(1) cons.prems(1)] cons.prems(2) by simp
  ultimately show ?case using cons.IH cons.prems(2) by simp
qed simp

text \<open>The writes for one proxy, and the sender past its guard.\<close>

fun writes :: "addr \<Rightarrow> label \<Rightarrow> bool" where
  "writes a (LWrite t (Some (b, c)) r) = (b = a)"
| "writes a _ = False"

definition sends_for :: "addr \<Rightarrow> system \<Rightarrow> bool" where
  "sends_for a s \<longleftrightarrow> (\<exists>t j c. s_sending s = Some (t, j, True) \<and> j_guard j = Some (a, c))"

lemma sends_for_step:
  assumes "sys_step U s l s'" "\<not> admits a l"
  shows "writes a l \<Longrightarrow> sends_for a s \<and> \<not> sends_for a s'" "sends_for a s' \<Longrightarrow> sends_for a s"
proof -
  have "(writes a l \<longrightarrow> sends_for a s \<and> \<not> sends_for a s') \<and> (sends_for a s' \<longrightarrow> sends_for a s)"
    using assms(1)
  proof (cases rule: sys_step.cases)
    case (guard t j r w)
    then show ?thesis using assms(2) by (cases r) (auto simp: sends_for_def)
  next
    case (written t j r d')
    then show ?thesis by (cases "j_guard j") (auto simp: sends_for_def)
  next
    case (micro t w ok d' n)
    then show ?thesis by (auto simp: sends_for_def leave_lock_def split: if_splits option.splits)
  qed (simp_all add: sends_for_def)
  then show "writes a l \<Longrightarrow> sends_for a s \<and> \<not> sends_for a s'" "sends_for a s' \<Longrightarrow> sends_for a s" by blast+
qed

lemma writes_bound:
  assumes "sys_run U s ls s'" "\<forall>l \<in> set ls. \<not> admits a l"
  shows "length (filter (writes a) ls) \<le> (if sends_for a s then 1 else 0)"
  using assms
proof (induction)
  case (cons s l s1 ls s2)
  have "\<not> admits a l" using cons.prems by auto
  note st = sends_for_step [OF cons.hyps(1) this]
  show ?case using cons.IH cons.prems st by (auto split: if_splits)
qed simp

section \<open>A destroyed object gets no event\<close>

text \<open>The proxy is no event target, and no registration of it is half done.\<close>

definition gone :: "addr \<Rightarrow> system \<Rightarrow> bool" where
  "gone a s \<longleftrightarrow> (\<forall>i. objectAt (s_d s) i \<noteq> Some (ProxyObj a)) \<and>
     (\<forall>t i. s_micro s t \<noteq> Some (StoreProxy i a) \<and> s_micro s t \<noteq> Some (StoreObj i a))"

lemma micro_objects:
  assumes "micro_step w d = (ok, d', n)" "\<forall>i. w \<noteq> StoreObj i a" "objectAt d' j = Some (ProxyObj a)"
  shows "objectAt d j = Some (ProxyObj a)"
proof -
  have "objectAt (fst (snd (micro_step w d))) j = Some (ProxyObj a)" using assms(1,3) by simp
  then show ?thesis
    using assms(2) by (cases w) (auto simp: set_proxies_def set_objects_def case_prod_beta Let_def split: if_splits)
qed

lemma gone_step:
  assumes "sys_step U s l s'" "gone a s" "\<not> registers a l"
  shows "gone a s'"
proof -
  have "objectAt (s_d s') i \<noteq> Some (ProxyObj a)" for i
  proof (cases "\<exists>t w ok n. l = LMicro t w ok n")
    case True
    then obtain t w ok n where l: "l = LMicro t w ok n" by blast
    then have "s_micro s t = Some w" "micro_step w (s_d s) = (ok, s_d s', n)" using assms(1) by (auto elim!: microE)
    then show ?thesis using micro_objects assms(2) unfolding gone_def by metis
  next
    case False
    then show ?thesis
      using quiet_step_tables [OF assms(1)] assms(2) unfolding keeps_tables_def gone_def by (metis option.distinct(1))
  qed
  then show ?thesis using assms(2) store_step [OF assms(1,3)] unfolding gone_def by blast
qed

lemma check_gone: "sys_step U s (LCheck (ProxyObj a)) s' \<Longrightarrow> \<not> gone a s"
  by (erule checkE) (auto simp: gone_def)

lemma gone_run:
  assumes "sys_run U s ls s'" "gone a s" "\<forall>l \<in> set ls. \<not> registers a l"
  shows "LCheck (ProxyObj a) \<notin> set ls"
  using assms
proof induction
  case (cons s l s1 ls s2)
  have "l \<noteq> LCheck (ProxyObj a)" using check_gone cons.hyps(1) cons.prems(1) by blast
  moreover have "gone a s1" using gone_step [OF cons.hyps(1) cons.prems(1)] cons.prems(2) by simp
  ultimately show ?case using cons.IH cons.prems(2) by simp
qed simp

text \<open>An event for the proxy that is past the check and not handed over yet.\<close>

definition checked_for :: "addr \<Rightarrow> system \<Rightarrow> bool" where
  "checked_for a s \<longleftrightarrow> (\<exists>ev. s_ev s = PChecked (ProxyObj a) ev)"

fun delivers :: "addr \<Rightarrow> label \<Rightarrow> bool" where
  "delivers a (LDeliver b tw) = (b = a)"
| "delivers a _ = False"

lemma checked_for_step:
  assumes "sys_step U s l s'" "l \<noteq> LCheck (ProxyObj a)"
  shows "delivers a l \<Longrightarrow> checked_for a s \<and> \<not> checked_for a s'" "checked_for a s' \<Longrightarrow> checked_for a s"
  using assms by (cases rule: sys_step.cases; auto simp: checked_for_def split: if_splits sum.splits option.splits)+

lemma deliveries_bound:
  assumes "sys_run U s ls s'" "LCheck (ProxyObj a) \<notin> set ls"
  shows "length (filter (delivers a) ls) \<le> (if checked_for a s then 1 else 0)"
  using assms
proof induction
  case (cons s l s1 ls s2)
  have "l \<noteq> LCheck (ProxyObj a)" using cons.prems by auto
  note st = checked_for_step [OF cons.hyps(1) this]
  show ?case using cons.IH cons.prems st by (auto split: if_splits)
qed simp

section \<open>A run in which an event comes late\<close>

text \<open>
  A client with one object, ID 3, whose events have no arguments, and a compositor that has sent one event for
  it. The dispatch loop gets as far as the check; then another goroutine destroys the object.
\<close>

definition watched :: proxy where
  "watched = (BaseProxy 3 (Some 0) 1)\<lparr>p_class := UserClass 0, p_sig := Some (\<lambda>_. Some '''')\<rparr>"

definition late_frame :: receivedFrame where
  "late_frame = \<lparr>f_object = 3, f_opcode = 0, f_body = []\<rparr>"

definition late_read :: readResult where
  "late_read = \<lparr>rd_data = message_bytes late_frame, rd_oob = [], rd_ctrunc = False, rd_err = None\<rparr>"

definition race_display :: display where
  "race_display = run_apis [ApiAllocateID, ApiNewProxy watched, ApiRegister (Some 0)]
     (snd (ConnectFromConn (idle_conn\<lparr>cn_in := [late_read]\<rparr>) True 0 (\<lambda>_. BaseProxy 0 None 0) 0))"

lemma race_session: "session U race_display"
  unfolding race_display_def by (simp only: run_apis.simps) (intro session.call session.connect)

lemma connect_open:
  assumes "\<not> cn_closed c" "cn_wres c = []"
  shows "\<exists>msg. snd (ConnectFromConn c True ref h b) =
    (newDisplay c True ref h b)\<lparr>d_conn := c\<lparr>cn_out := cn_out c @ [(msg, [])]\<rparr>\<rparr>"
  using assms
  by (auto simp: ConnectFromConn_def op_defs encodeRequest_def putUint32_def HeaderSize_def sendmsgWithFDs_def
      conn_Write_def Let_def)

lemma race_display_facts:
  "cn_in (d_conn race_display) = [late_read]" "cn_wres (d_conn race_display) = []" "\<not> cn_closed (d_conn race_display)"
  "objectAt race_display i = (if i = 1 then Some DisplayObj else if i = 2 then Some RegistryObj
     else if i = 3 then Some (ProxyObj 0) else None)"
  "proxyAt race_display i = (if i = 3 then Some 0 else None)" "d_heap race_display 0 = watched"
  "\<not> d_closed race_display" "\<not> cx_closed (d_context race_display)" "cx_ref (d_context race_display) = 0"
  "d_rbuf race_display = []" "d_rpos race_display = 0" "d_readErr race_display = None" "d_pendingFDs race_display = []"
  "d_maxMsgLen race_display = 0" "d_trace race_display = []"
proof -
  let ?c = "idle_conn\<lparr>cn_in := [late_read]\<rparr>"
  obtain msg where "snd (ConnectFromConn ?c True 0 (\<lambda>_. BaseProxy 0 None 0) 0) =
      (newDisplay ?c True 0 (\<lambda>_. BaseProxy 0 None 0) 0)\<lparr>d_conn := ?c\<lparr>cn_out := cn_out ?c @ [(msg, [])]\<rparr>\<rparr>"
    using connect_open [of ?c 0 "\<lambda>_. BaseProxy 0 None 0" 0] by (auto simp: idle_conn_def)
  then have d: "race_display = run_apis [ApiAllocateID, ApiNewProxy watched, ApiRegister (Some 0)]
      ((newDisplay ?c True 0 (\<lambda>_. BaseProxy 0 None 0) 0)\<lparr>d_conn := ?c\<lparr>cn_out := cn_out ?c @ [(msg, [])]\<rparr>\<rparr>)"
    unfolding race_display_def by simp
  note sel = allocateID_def new_proxy_def Register_def watched_def BaseProxy_def
  show "cn_in (d_conn race_display) = [late_read]" "cn_wres (d_conn race_display) = []" "\<not> cn_closed (d_conn race_display)"
      "objectAt race_display i = (if i = 1 then Some DisplayObj else if i = 2 then Some RegistryObj
         else if i = 3 then Some (ProxyObj 0) else None)"
      "proxyAt race_display i = (if i = 3 then Some 0 else None)"
    by (simp_all add: d sel idle_conn_def)
  show "d_heap race_display 0 = watched" "\<not> d_closed race_display" "\<not> cx_closed (d_context race_display)"
      "cx_ref (d_context race_display) = 0" "d_rbuf race_display = []" "d_rpos race_display = 0"
      "d_readErr race_display = None" "d_pendingFDs race_display = []" "d_maxMsgLen race_display = 0" "d_trace race_display = []"
    by (simp_all add: d sel)
qed

definition race_read :: display where
  "race_read = race_display\<lparr>d_conn := (d_conn race_display)\<lparr>cn_in := []\<rparr>, d_rbuf := message_bytes late_frame, d_rpos := 8\<rparr>"

lemma race_nextFrame: "nextFrame U race_display = Some (Inr late_frame, race_read)"
proof -
  let ?d1 = "race_display\<lparr>d_conn := (d_conn race_display)\<lparr>cn_in := []\<rparr>, d_rbuf := message_bytes late_frame\<rparr>"
  have "clean_read U late_read" "read_fds U late_read = []" by (simp_all add: late_read_def clean_read_def read_fds_def)
  then have "readChunk U race_display = Some ((message_bytes late_frame, None), race_display\<lparr>d_conn := (d_conn race_display)\<lparr>cn_in := []\<rparr>\<rparr>)"
    using readChunk_clean [of race_display late_read "[]" U] race_display_facts(1,3)
    by (simp add: queueFDs_def Let_def late_read_def)
  then have "fill U race_display = Some (None, ?d1)"
    using race_display_facts(10-12) by (simp add: fill_def message_bytes_def header_bytes_def)
  moreover have "nextFrame U race_display = read_on U race_display"
    by (rule nextFrame_short) (simp add: race_display_facts HeaderSize_def)
  moreover have "nextFrame U ?d1 = Some (Inr late_frame, ?d1\<lparr>d_rpos := d_rpos ?d1 + frame_size late_frame\<rparr>)"
    by (rule nextFrame_ready [where tail = "[]"])
       (simp_all add: clean_def race_display_facts accepts_def late_frame_def wf_frame_def frame_size_def HeaderSize_def
        maxMessageSize_def DefaultMaxMessageSize_def)
  ultimately show ?thesis
    by (simp add: read_on_def race_read_def race_display_facts late_frame_def frame_size_def HeaderSize_def)
qed

text \<open>The display after the two operations of the claim, and after the write of the destructor.\<close>

definition race_claimed :: display where
  "race_claimed = set_proxies race_read (Delete (cx_proxies (d_context race_read)) 3)"

definition race_swapped :: display where
  "race_swapped = set_objects race_claimed (Store (d_objects race_claimed) 3 (ZombieObj 0))"

definition destroy_job :: job where
  "destroy_job = \<lparr>j_guard = Some (0, DestroyCheck), j_data = message_bytes late_frame, j_fds = []\<rparr>"

definition race_written :: display where
  "race_written = race_swapped\<lparr>d_conn := (d_conn race_swapped)\<lparr>cn_out := cn_out (d_conn race_swapped) @ [(j_data destroy_job, [])]\<rparr>\<rparr>"

definition late_event :: event where
  "late_event = newEvent 3 0 [] []"

lemma race_read_facts:
  "objectAt race_read i = objectAt race_display i" "proxyAt race_read i = proxyAt race_display i"
  "d_heap race_read = d_heap race_display" "\<not> d_closed race_read" "pid race_read 0 = 3" "CheckProxy race_read (Some 0) = None"
  "prepareFrame race_read late_frame = (PObject (ProxyObj 0) late_event, race_read)"
proof -
  show f: "objectAt race_read i = objectAt race_display i" "proxyAt race_read i = proxyAt race_display i"
      "d_heap race_read = d_heap race_display" "\<not> d_closed race_read" "pid race_read 0 = 3" for i
    by (simp_all add: race_read_def race_display_facts watched_def BaseProxy_def)
  have "d_context race_read = d_context race_display" by (simp add: race_read_def)
  then show "CheckProxy race_read (Some 0) = None"
    using f by (simp add: CheckProxy_def race_display_facts) (simp add: watched_def BaseProxy_def)
  have "d_pendingFDs race_read = []" by (simp add: race_read_def race_display_facts)
  moreover have "eventSignature race_read (ProxyObj 0) 3 0 = Some ''''"
    using f(3) by (simp add: eventSignature_def race_display_facts watched_def)
  ultimately show "prepareFrame race_read late_frame = (PObject (ProxyObj 0) late_event, race_read)"
    using f by (simp add: prepareFrame_def late_frame_def late_event_def displayObjectID_def validate_eval race_display_facts)
qed

text \<open>A state of this run.\<close>

definition race_state ::
    "display \<Rightarrow> (nat \<Rightarrow> job option) \<Rightarrow> (nat \<times> job \<times> bool) option \<Rightarrow> (nat \<Rightarrow> micro option) \<Rightarrow> phase \<Rightarrow> system" where
  "race_state d jobs sending micros ev =
     (initial race_display)\<lparr>s_d := d, s_jobs := jobs, s_sending := sending, s_micro := micros, s_ev := ev\<rparr>"

lemma race_state_sel [simp]:
  "s_d (race_state d js sn w ev) = d" "s_jobs (race_state d js sn w ev) = js" "s_sending (race_state d js sn w ev) = sn"
  "s_micro (race_state d js sn w ev) = w" "s_ev (race_state d js sn w ev) = ev"
  "(race_state d js sn w ev)\<lparr>s_d := d'\<rparr> = race_state d' js sn w ev"
  "(race_state d js sn w ev)\<lparr>s_jobs := js'\<rparr> = race_state d js' sn w ev"
  "(race_state d js sn w ev)\<lparr>s_sending := sn'\<rparr> = race_state d js sn' w ev"
  "(race_state d js sn w ev)\<lparr>s_micro := w'\<rparr> = race_state d js sn w' ev"
  "(race_state d js sn w ev)\<lparr>s_ev := ev'\<rparr> = race_state d js sn w ev'"
  by (simp_all add: race_state_def)

abbreviation checked_phase :: phase where
  "checked_phase \<equiv> PChecked (ProxyObj 0) late_event"

abbreviation waiting :: system where
  "waiting \<equiv> race_state race_read [0 \<mapsto> destroy_job] None Map.empty checked_phase"

abbreviation claiming :: system where
  "claiming \<equiv> race_state race_read Map.empty (Some (0, destroy_job, True)) [0 \<mapsto> ClaimProxy 3 0] checked_phase"

abbreviation swapping :: system where
  "swapping \<equiv> race_state race_claimed Map.empty (Some (0, destroy_job, True)) [0 \<mapsto> SwapObj 3 0] checked_phase"

abbreviation claimed :: system where
  "claimed \<equiv> race_state race_swapped Map.empty (Some (0, destroy_job, True)) Map.empty checked_phase"

abbreviation destroyed :: system where
  "destroyed \<equiv> race_state race_written Map.empty None Map.empty checked_phase"

text \<open>The dispatch loop up to the check, while the destructor waits for the send lock.\<close>

lemma race_start:
  "sys_step U (initial race_display) (LStart 0 (Some 0)) (race_state race_display [0 \<mapsto> destroy_job] None Map.empty PIdle)"
proof -
  let ?s = "race_state race_display Map.empty None Map.empty PIdle"
  have i: "initial race_display = ?s" by (simp add: race_state_def initial_def)
  have pid: "pid race_display 0 = 3" by (simp add: race_display_facts watched_def BaseProxy_def)
  have "CheckProxy race_display (Some 0) = None"
    using pid by (simp add: CheckProxy_def race_display_facts) (simp add: watched_def BaseProxy_def)
  moreover have "encodeRequest (objID race_display) (pid race_display 0) (ucast (0 :: u32)) [] [] = Inr (j_data destroy_job)"
    unfolding pid by (simp add: encodeRequest_Inr destroy_job_def late_frame_def HeaderSize_def)
  ultimately have "sys_step U ?s (LStart 0 (Some 0)) (?s\<lparr>s_jobs := (s_jobs ?s)(0 \<mapsto>
      \<lparr>j_guard = Some (0, DestroyCheck), j_data = j_data destroy_job, j_fds = []\<rparr>)\<rparr>)"
    by (intro sys_step.start [where oc = 0 and args = "[]" and vals = "[]"]) (simp_all add: at_rest_def)
  then show ?thesis unfolding i by (simp add: destroy_job_def)
qed

lemma late_frame_object: "f_object late_frame = 3"
  by (simp add: late_frame_def)

lemma race_checked: "sys_run U (initial race_display) [LStart 0 (Some 0), LFrame, LReadCheck, LPrepare, LCheck (ProxyObj 0)] waiting"
proof -
  let ?st = "\<lambda>d ev. race_state d [0 \<mapsto> destroy_job] None Map.empty ev"
  have 2: "sys_step U (?st race_display PIdle) LFrame (?st race_read (PRead (Inr late_frame)))"
    using sys_step.frame [where s = "?st race_display PIdle" and U = U] race_nextFrame race_display_facts(7) by simp
  have 3: "sys_step U (?st race_read (PRead (Inr late_frame))) LReadCheck (?st race_read (PFramed late_frame))"
    using sys_step.read_check [where s = "?st race_read (PRead (Inr late_frame))" and U = U] race_read_facts(4) by simp
  have 4: "sys_step U (?st race_read (PFramed late_frame)) LPrepare (?st race_read (PPrepared (ProxyObj 0) late_event 3))"
    using sys_step.prepare [where s = "?st race_read (PFramed late_frame)" and U = U and f = late_frame and obj = "ProxyObj 0"
        and ev = late_event and d' = race_read] race_read_facts(7)
    by (simp add: late_frame_object)
  have 5: "sys_step U (?st race_read (PPrepared (ProxyObj 0) late_event 3)) (LCheck (ProxyObj 0)) waiting"
    using sys_step.check [where s = "?st race_read (PPrepared (ProxyObj 0) late_event 3)" and U = U]
    by (simp add: is_zombie_def race_read_facts race_display_facts)
  show ?thesis
    by (intro sys_run.cons [OF race_start] sys_run.cons [OF 2] sys_run.cons [OF 3] sys_run.cons [OF 4] sys_run.cons [OF 5] sys_run.nil)
qed

text \<open>The destructor, from the send lock to the write.\<close>

lemma race_guard: "sys_run U waiting [LEnter 0, LGuard 0 (Some (0, DestroyCheck)) None (Some (ClaimProxy 3 0))] claiming"
proof -
  let ?s = "race_state race_read Map.empty (Some (0, destroy_job, False)) Map.empty checked_phase"
  have 1: "sys_step U waiting (LEnter 0) ?s"
    using sys_step.enter [where s = waiting and U = U and t = 0] race_read_facts(4)
    by (simp add: sendable_def destroy_job_def)
  have 2: "sys_step U ?s (LGuard 0 (j_guard destroy_job) None (Some (ClaimProxy 3 0))) claiming"
    using sys_step.guard [where s = ?s and U = U and t = 0 and j = destroy_job and r = None and w = "Some (ClaimProxy 3 0)"]
      race_read_facts(5,6) by (simp add: destroy_job_def begin_claim_def)
  then have "sys_step U ?s (LGuard 0 (Some (0, DestroyCheck)) None (Some (ClaimProxy 3 0))) claiming"
    by (simp add: destroy_job_def)
  from sys_run.cons [OF 1 sys_run.cons [OF this sys_run.nil]] show ?thesis .
qed

lemma race_claim: "sys_step U claiming (LMicro 0 (ClaimProxy 3 0) True (Some (SwapObj 3 0))) swapping"
  using micro_ordinary [where s = claiming and t = 0 and U = U and w = "ClaimProxy 3 0" and ok = True]
  by (simp add: lost_claim_def race_claimed_def CompareAndDelete_def race_read_facts race_display_facts)

lemma race_swap: "sys_step U swapping (LMicro 0 (SwapObj 3 0) True None) claimed"
proof -
  have "objectAt race_claimed 3 = Some (ProxyObj 0)"
    by (simp add: race_claimed_def set_proxies_def race_read_facts race_display_facts)
  then show ?thesis
    using micro_ordinary [where s = swapping and t = 0 and U = U and w = "SwapObj 3 0" and ok = True]
    by (simp add: lost_claim_def race_swapped_def CompareAndSwap_def)
qed

lemma race_write: "sys_step U claimed (LWrite 0 (Some (0, DestroyCheck)) None) destroyed"
proof -
  have "d_conn race_swapped = (d_conn race_display)\<lparr>cn_in := []\<rparr>"
    by (simp add: race_swapped_def race_claimed_def race_read_def set_proxies_def set_objects_def)
  then have "send_write race_swapped (j_data destroy_job) (j_fds destroy_job) = (None, race_written)"
    using race_display_facts(2,3) by (simp add: send_write_def conn_Write_def race_written_def destroy_job_def)
  then show ?thesis
    using sys_step.written [where s = claimed and U = U and t = 0 and j = destroy_job] by (simp add: destroy_job_def)
qed

section \<open>Properties\<close>

text \<open>
  C3: a destructor is sent at most once, under any interleaving. Once a destructor
  has claimed a proxy that was registered under this ID only and is not being registered, no guard of a request
  or destructor on that proxy passes any more, no other claim of it is won, and at most one message for it is
  written, the destructor's own, until the application registers the proxy again.
\<close>

theorem destructor_exactly_once:
  assumes "\<forall>j. proxyAt (s_d s) j = Some a \<longrightarrow> j = i" "\<forall>t' j. s_micro s t' \<noteq> Some (StoreProxy j a)"
    and "sys_step U s (LMicro t (ClaimProxy i a) True n) s1" "sys_run U s1 ls s2" "\<forall>l \<in> set ls. \<not> registers a l"
  shows "(\<forall>t' c w. LGuard t' (Some (a, c)) None w \<notin> set ls) \<and> (\<forall>t' j n'. LMicro t' (ClaimProxy j a) True n' \<notin> set ls) \<and>
    length (filter (writes a) ls) \<le> 1"
proof -
  have step: "micro_step (ClaimProxy i a) (s_d s) = (True, s_d s1, n)" using assms(3) by (auto elim!: microE)
  then have d1: "s_d s1 = fst (snd (micro_step (ClaimProxy i a) (s_d s)))" by (simp del: micro_step.simps)
  have "proxyAt (s_d s) i = Some a"
    using arg_cong [OF step, of fst] by (simp add: case_prod_beta Let_def CompareAndDelete_def split: if_splits)
  then have "proxyAt (s_d s1) j = (if j = i then None else proxyAt (s_d s) j)" for j
    unfolding d1 by (simp add: case_prod_beta Let_def set_proxies_def)
  then have "\<forall>j. proxyAt (s_d s1) j \<noteq> Some a" using assms(1) by auto
  then have "unregistered a s1"
    using assms(2) store_step(1) [OF assms(3), of a] unfolding unregistered_def by auto
  then have g: "\<forall>l \<in> set ls. \<not> admits a l" using unregistered_run assms(4,5) by blast
  moreover have "length (filter (writes a) ls) \<le> 1" using writes_bound [OF assms(4) g] by (auto split: if_splits)
  ultimately show ?thesis by (metis admits.simps(1,2))
qed

text \<open>
  C4: a destroyed object receives no further events, under any interleaving. Once the claim of a
  destructor or an \<^verbatim>\<open>Abandon\<close> is complete, for a proxy that is an event target under one ID only and is
  not being registered, the check before the delivery
  refuses every event for it, also one whose frame was looked up before the claim,
  until the application registers the proxy again. Only an event that had passed
  this check before can still be delivered, and there is at most one.
\<close>

theorem no_event_after_destroy:
  assumes "\<forall>j. objectAt (s_d s) j = Some (ProxyObj a) \<longrightarrow> j = i"
    and "\<forall>t' j. s_micro s t' \<noteq> Some (StoreProxy j a) \<and> s_micro s t' \<noteq> Some (StoreObj j a)"
    and "sys_step U s (LMicro t (SwapObj i a) ok n) s1" "sys_run U s1 ls s2" "\<forall>l \<in> set ls. \<not> registers a l"
  shows "LCheck (ProxyObj a) \<notin> set ls \<and>
    length (filter (delivers a) ls) \<le> (if checked_for a s1 then 1 else 0)"
proof -
  have m: "micro_step (SwapObj i a) (s_d s) = (ok, s_d s1, n)" using assms(3) by (auto elim!: microE)
  then have "s_d s1 = set_objects (s_d s) (snd (CompareAndSwap (d_objects (s_d s)) i (ProxyObj a) (ZombieObj a)))"
    by (simp add: case_prod_beta Let_def)
  then have "\<forall>j. objectAt (s_d s1) j \<noteq> Some (ProxyObj a)" using assms(1) by (auto simp: set_objects_def)
  then have "gone a s1" using assms(2) store_step [OF assms(3), of a] unfolding gone_def by auto
  then have c: "LCheck (ProxyObj a) \<notin> set ls" using gone_run assms(4,5) by blast
  then show ?thesis using deliveries_bound [OF assms(4) c] by blast
qed

theorem destructor_exactly_once_witness:
  "length (filter (writes 0) [LMicro 0 (SwapObj 3 0) True None, LWrite 0 (Some (0, DestroyCheck)) None]) \<le> 1 \<and>
   (\<forall>t' c w. LGuard t' (Some (0, c)) None w \<notin> set [LMicro 0 (SwapObj 3 0) True None, LWrite 0 (Some (0, DestroyCheck)) None])"
proof -
  have "\<forall>j. proxyAt (s_d claiming) j = Some 0 \<longrightarrow> j = 3" "\<forall>t' j. s_micro claiming t' \<noteq> Some (StoreProxy j 0)"
    by (simp_all add: race_read_facts race_display_facts)
  from destructor_exactly_once [OF this race_claim [of linux_unix]
      sys_run.cons [OF race_swap sys_run.cons [OF race_write sys_run.nil]]]
  show ?thesis by simp
qed

theorem no_event_after_destroy_witness:
  "LCheck (ProxyObj 0) \<notin> set [LWrite 0 (Some (0, DestroyCheck)) None] \<and>
   length (filter (delivers 0) [LWrite 0 (Some (0, DestroyCheck)) None]) \<le> (if checked_for 0 claimed then 1 else 0)"
proof -
  have "\<forall>j. objectAt (s_d swapping) j = Some (ProxyObj 0) \<longrightarrow> j = 3"
      "\<forall>t' j. s_micro swapping t' \<noteq> Some (StoreProxy j 0) \<and> s_micro swapping t' \<noteq> Some (StoreObj j 0)"
    by (simp_all add: race_claimed_def set_proxies_def race_read_facts race_display_facts)
  from no_event_after_destroy [OF this race_swap [of linux_unix] sys_run.cons [OF race_write sys_run.nil]]
  show ?thesis by simp
qed

text \<open>
  C36: the check before a delivery and the call of the handler are not one atomic
  step, and the comment that a destroyed object receives no further events is wrong for the event between them. There is a
  session and an interleaving of its dispatch loop with a goroutine that sends a destructor in which the event passes the
  check, the destructor claims the proxy, makes its table entry a zombie and is written, and the
  event is then delivered to the destroyed object.
\<close>

theorem late_event_race:
  "\<exists>d xs s1 s2. session U d \<and> d_trace d = [] \<and>
     sys_run U (initial d) (xs @ [LCheck (ProxyObj 0), LEnter 0, LGuard 0 (Some (0, DestroyCheck)) None (Some (ClaimProxy 3 0)),
        LMicro 0 (ClaimProxy 3 0) True (Some (SwapObj 3 0)), LMicro 0 (SwapObj 3 0) True None,
        LWrite 0 (Some (0, DestroyCheck)) None]) s1 \<and>
     proxyAt (s_d s1) 3 = None \<and> objectAt (s_d s1) 3 = Some (ZombieObj 0) \<and>
     sys_step U s1 (LDeliver 0 None) s2 \<and> d_trace (s_d s2) = [ToProxy 0 (newEvent 3 0 [] [])]"
proof -
  let ?s3 = "destroyed\<lparr>s_d := log_delivery race_written (ToProxy 0 late_event), s_ev := PHandling late_event\<rparr>"
  have facts: "proxyAt race_written 3 = None" "objectAt race_written 3 = Some (ZombieObj 0)"
      "d_heap race_written 0 = watched" "d_trace race_written = []" "d_trace race_display = []"
    using race_display_facts(6)
    by (simp_all add: race_written_def race_swapped_def race_claimed_def race_read_def set_proxies_def set_objects_def race_display_facts)
  have run: "sys_run U (initial race_display) ([LStart 0 (Some 0), LFrame, LReadCheck, LPrepare] @
      [LCheck (ProxyObj 0), LEnter 0, LGuard 0 (Some (0, DestroyCheck)) None (Some (ClaimProxy 3 0)),
        LMicro 0 (ClaimProxy 3 0) True (Some (SwapObj 3 0)), LMicro 0 (SwapObj 3 0) True None,
        LWrite 0 (Some (0, DestroyCheck)) None]) destroyed"
  proof -
    note tail = sys_run.cons [OF race_claim sys_run.cons [OF race_swap sys_run.cons [OF race_write sys_run.nil]]]
    have "sys_run U (initial race_display) ([LStart 0 (Some 0), LFrame, LReadCheck, LPrepare, LCheck (ProxyObj 0)] @
        [LEnter 0, LGuard 0 (Some (0, DestroyCheck)) None (Some (ClaimProxy 3 0))] @
        [LMicro 0 (ClaimProxy 3 0) True (Some (SwapObj 3 0)), LMicro 0 (SwapObj 3 0) True None,
         LWrite 0 (Some (0, DestroyCheck)) None]) destroyed"
      unfolding sys_run_append using race_checked race_guard tail by blast
    then show ?thesis by simp
  qed
  have "sys_step U destroyed (LDeliver 0 None) ?s3"
    using sys_step.deliver_proxy [where s = destroyed and U = U and a = 0 and ev = late_event] facts(3)
    by (simp add: watched_def)
  moreover have "d_trace (s_d ?s3) = [ToProxy 0 (newEvent 3 0 [] [])]"
    using facts by (simp add: log_delivery_def late_event_def)
  ultimately show ?thesis using run race_session facts by (metis race_state_sel(1))
qed

end
