(* ===== verification/Lifecycle.thy ===== *)
theory Lifecycle
  imports Concurrent
begin

text \<open>
  An abstract specification of the life of object IDs, and the proof that the
  connection implements it. The specification knows for every ID whether the client may
  still hand it out, has handed it out, or got it back, and what the ID stands for. It does
  not know the free list, the counter, the set of retired IDs or the second table; which of the
  available IDs an allocation picks is open.
\<close>

section \<open>The specification\<close>

datatype id_status = Fresh | Used | Free

datatype binding = Unbound | Bound object | Destroyed addr

record lifecycle =
  lc_status :: "u32 \<Rightarrow> id_status"
  lc_binding :: "u32 \<Rightarrow> binding"

definition client_id :: "u32 \<Rightarrow> bool" where
  "client_id i \<longleftrightarrow> 2 \<le> i \<and> i < 0xff000000"

definition available :: "lifecycle \<Rightarrow> u32 \<Rightarrow> bool" where
  "available s i \<longleftrightarrow> client_id i \<and> lc_status s i \<noteq> Used"

datatype action =
    Allocate u32
  | Exhausted
  | Bind_ID u32 addr
  | Unbind u32 addr
  | Forget u32
  | Destroy u32 addr
  | Acknowledge u32
  | Reject u32
  | Bury u32 addr
  | Release u32

text \<open>
  The steps. Only the object bound to an ID can be unbound from it or destroyed; \<open>Forget\<close> is the application's
  \<^verbatim>\<open>UnregisterID\<close>, which asks nothing. An acknowledgement (\<^verbatim>\<open>delete_id\<close>) is taken for an ID in use whose object
  is not alive; any other is rejected, and all it can do is to forget a destroyed object. Seen from another
  goroutine an acknowledgement is two steps: the destroyed object is forgotten (\<open>Bury\<close>), then the ID is
  given back (\<open>Release\<close>).
\<close>

inductive lc_step :: "lifecycle \<Rightarrow> action \<Rightarrow> lifecycle \<Rightarrow> bool" where
  allocate: "available s i \<Longrightarrow> lc_step s (Allocate i) (s\<lparr>lc_status := (lc_status s)(i := Used)\<rparr>)"
| exhausted: "\<forall>i. \<not> available s i \<Longrightarrow> lc_step s Exhausted s"
| bind_id: "lc_step s (Bind_ID i a) (s\<lparr>lc_binding := (lc_binding s)(i := Bound (ProxyObj a))\<rparr>)"
| unbind: "lc_binding s i = Bound (ProxyObj a) \<Longrightarrow>
    lc_step s (Unbind i a) (s\<lparr>lc_binding := (lc_binding s)(i := Unbound)\<rparr>)"
| forget: "lc_step s (Forget i) (s\<lparr>lc_binding := (lc_binding s)(i := Unbound)\<rparr>)"
| destroy: "lc_binding s i = Bound (ProxyObj a) \<Longrightarrow>
    lc_step s (Destroy i a) (s\<lparr>lc_binding := (lc_binding s)(i := Destroyed a)\<rparr>)"
| acknowledge: "client_id i \<Longrightarrow> lc_status s i = Used \<Longrightarrow> lc_binding s i = Unbound \<or> lc_binding s i = Destroyed a \<Longrightarrow>
    lc_step s (Acknowledge i)
      (s\<lparr>lc_status := (lc_status s)(i := Free), lc_binding := (lc_binding s)(i := Unbound)\<rparr>)"
| reject: "\<not> client_id i \<or> lc_status s i \<noteq> Used \<or> (\<exists>ob. lc_binding s i = Bound ob) \<Longrightarrow>
    b = (if \<exists>a. lc_binding s i = Destroyed a then Unbound else lc_binding s i) \<Longrightarrow>
    lc_step s (Reject i) (s\<lparr>lc_binding := (lc_binding s)(i := b)\<rparr>)"
| bury: "lc_binding s i = Destroyed a \<Longrightarrow> lc_step s (Bury i a) (s\<lparr>lc_binding := (lc_binding s)(i := Unbound)\<rparr>)"
| release: "client_id i \<Longrightarrow> lc_status s i = Used \<Longrightarrow>
    lc_step s (Release i) (s\<lparr>lc_status := (lc_status s)(i := Free)\<rparr>)"

inductive_simps lc_allocate_iff: "lc_step s (Allocate i) s'"
inductive_simps lc_exhausted_iff: "lc_step s Exhausted s'"
inductive_simps lc_acknowledge_iff: "lc_step s (Acknowledge i) s'"

inductive lc_run :: "lifecycle \<Rightarrow> action list \<Rightarrow> lifecycle \<Rightarrow> bool" where
  nil: "lc_run s [] s"
| snoc: "lc_run s xs s1 \<Longrightarrow> lc_step s1 x s2 \<Longrightarrow> lc_run s (xs @ [x]) s2"

lemma lc_run_single: "lc_step s x s' \<Longrightarrow> lc_run s [x] s'"
  using lc_run.snoc [OF lc_run.nil, of s x s'] by simp

lemma lc_run_append: "lc_run s1 ys s2 \<Longrightarrow> lc_run s xs s1 \<Longrightarrow> lc_run s (xs @ ys) s2"
proof (induction rule: lc_run.induct)
  case (snoc s1 ys s2 y s3)
  then show ?case using lc_run.snoc [of s "xs @ ys"] by simp
qed simp

text \<open>In the specification an ID in use is not handed out again before it is given back.\<close>

lemma lc_used_until_released:
  assumes "lc_run s xs s'" "lc_status s i = Used" "Acknowledge i \<notin> set xs" "Release i \<notin> set xs"
  shows "lc_status s' i = Used \<and> Allocate i \<notin> set xs"
  using assms
proof (induction rule: lc_run.induct)
  case (snoc s xs s1 x s2)
  then have "lc_status s1 i = Used" "Allocate i \<notin> set xs" by auto
  with snoc.hyps(2) snoc.prems show ?case by cases (auto simp: available_def)
qed simp

section \<open>The abstraction\<close>

definition abs_binding :: "object option \<Rightarrow> binding" where
  "abs_binding ob = (case ob of None \<Rightarrow> Unbound | Some (ZombieObj a) \<Rightarrow> Destroyed a | Some x \<Rightarrow> Bound x)"

definition abs_status :: "display \<Rightarrow> u32 \<Rightarrow> id_status" where
  "abs_status d i = (if i \<in> d_retiredIDs d then Free else if 2 \<le> i \<and> i < d_nextID d then Used else Fresh)"

definition lifecycle_of :: "display \<Rightarrow> lifecycle" where
  "lifecycle_of d = \<lparr>lc_status = abs_status d, lc_binding = (\<lambda>i. abs_binding (objectAt d i))\<rparr>"

lemma lifecycle_of_cong:
  "id_state d = id_state d' \<Longrightarrow> d_objects d = d_objects d' \<Longrightarrow> lifecycle_of d = lifecycle_of d'"
  by (simp add: lifecycle_of_def abs_status_def id_state_def fun_eq_iff)

lemma abs_binding_simps [simp]:
  "abs_binding None = Unbound" "abs_binding (Some (ZombieObj a)) = Destroyed a"
  "abs_binding (Some (ProxyObj a)) = Bound (ProxyObj a)" "abs_binding (Some RegistryObj) = Bound RegistryObj"
  "abs_binding (Some DisplayObj) = Bound DisplayObj"
  by (simp_all add: abs_binding_def)

lemma abs_binding_iff:
  "abs_binding x = Unbound \<longleftrightarrow> x = None" "abs_binding x = Destroyed a \<longleftrightarrow> x = Some (ZombieObj a)"
  "abs_binding x = Bound (ProxyObj a) \<longleftrightarrow> x = Some (ProxyObj a)"
  "(\<exists>ob. abs_binding x = Bound ob) \<longleftrightarrow> (\<exists>ob. x = Some ob \<and> \<not> is_zombie ob)"
  by (auto simp: abs_binding_def is_zombie_def split: option.splits object.splits)

lemma id_status_inv:
  assumes "id_inv d"
  shows "abs_status d i = Used \<longleftrightarrow> i \<in> used_ids d"
  using assms by (auto simp: abs_status_def used_ids_def id_inv_def)

section \<open>Operations refine steps\<close>

lemma lifecycle_of_sel [simp]:
  "lc_status (lifecycle_of d) = abs_status d" "lc_binding (lifecycle_of d) i = abs_binding (objectAt d i)"
  by (simp_all add: lifecycle_of_def)

lemma lifecycle_eqI:
  "(\<And>i. lc_status s i = lc_status t i) \<Longrightarrow> (\<And>i. lc_binding s i = lc_binding t i) \<Longrightarrow> s = (t :: lifecycle)"
  by (cases s, cases t) (simp add: fun_eq_iff)

text \<open>A step follows when its precondition holds and its result is the abstraction of the new state.\<close>

lemma allocateID_refines:
  assumes "id_inv d"
  shows "lc_step (lifecycle_of d) (if fst (allocateID d) = 0 then Exhausted else Allocate (fst (allocateID d)))
    (lifecycle_of (snd (allocateID d)))"
proof -
  let ?i = "fst (allocateID d)" and ?d' = "snd (allocateID d)"
  have objs: "objectAt ?d' j = objectAt d j" for j by (simp add: allocateID_def Let_def)
  show ?thesis
  proof (cases d rule: allocateID_cases)
    case exhausted
    then have "d_retiredIDs d = {}" "d_nextID d = 0xff000000" using assms by (auto simp: id_inv_def)
    then have "\<forall>i. \<not> available (lifecycle_of d) i" by (auto simp: available_def client_id_def abs_status_def)
    then show ?thesis using exhausted by (simp add: lc_step.exhausted)
  next
    case (reuse i fs)
    then have r: "2 \<le> i" "i < d_nextID d" "d_nextID d \<le> 0xff000000" "i \<in> d_retiredIDs d"
      using assms by (auto simp: id_inv_def)
    then have av: "available (lifecycle_of d) i" by (auto simp: available_def client_id_def abs_status_def)
    have "lifecycle_of ?d' = (lifecycle_of d)\<lparr>lc_status := (lc_status (lifecycle_of d))(i := Used)\<rparr>"
      using reuse r by (intro lifecycle_eqI) (auto simp: abs_status_def)
    then show ?thesis using reuse r lc_step.allocate [OF av] by auto
  next
    case fresh
    let ?n = "d_nextID d"
    have r: "2 \<le> ?n" "d_retiredIDs d = {}" using assms fresh by (auto simp: id_inv_def)
    then have av: "available (lifecycle_of d) ?n" using fresh by (auto simp: available_def client_id_def abs_status_def)
    have "lifecycle_of ?d' = (lifecycle_of d)\<lparr>lc_status := (lc_status (lifecycle_of d))(?n := Used)\<rparr>"
      using fresh r by (intro lifecycle_eqI) (auto simp: abs_status_def word_less_inc)
    then show ?thesis using fresh lc_step.allocate [OF av] by simp
  qed
qed

lemma delete_id_binding:
  "objectAt (snd (delete_id d i)) j =
     (if j = i \<and> (\<exists>a. objectAt d i = Some (ZombieObj a)) then None else objectAt d j)"
  by (auto simp: delete_id_def Let_def split: option.splits object.splits)

lemma delete_id_status:
  "abs_status (snd (delete_id d i)) j =
     (if fst (delete_id d i) = None \<and> j = i then Free else abs_status d j)"
  using id_state_delete_id [of d i]
  by (cases "fst (delete_id d i) = None") (simp_all add: id_state_def abs_status_def)

text \<open>The condition of the code is that of the specification.\<close>

lemma delete_id_accepts:
  assumes "id_inv d"
  shows "fst (delete_id d i) = None \<longleftrightarrow>
    client_id i \<and> abs_status d i = Used \<and> (\<forall>ob. abs_binding (objectAt d i) \<noteq> Bound ob)"
proof -
  have "(\<forall>ob. objectAt d i = Some ob \<longrightarrow> (\<exists>a. ob = ZombieObj a)) \<longleftrightarrow> (\<forall>ob. abs_binding (objectAt d i) \<noteq> Bound ob)"
    by (cases "objectAt d i") (auto simp: abs_binding_def split: object.splits)
  then show ?thesis unfolding delete_id_ok by (auto simp: client_id_def abs_status_def split: if_splits)
qed

lemma delete_id_refines:
  assumes "id_inv d"
  shows "lc_step (lifecycle_of d) (if fst (delete_id d i) = None then Acknowledge i else Reject i)
    (lifecycle_of (snd (delete_id d i)))"
proof -
  let ?d' = "snd (delete_id d i)" and ?x = "abs_binding (objectAt d i)"
  show ?thesis
  proof (cases "fst (delete_id d i) = None")
    case True
    have "lifecycle_of ?d' = (lifecycle_of d)\<lparr>lc_status := (lc_status (lifecycle_of d))(i := Free),
        lc_binding := (lc_binding (lifecycle_of d))(i := Unbound)\<rparr>"
      using True delete_id_accepts [OF assms, of i]
      by (intro lifecycle_eqI; cases "objectAt d i") (auto simp: delete_id_binding delete_id_status abs_binding_def split: object.splits)
    moreover have "?x = Unbound \<or> (\<exists>a. ?x = Destroyed a)"
      using True delete_id_accepts [OF assms, of i] by (cases ?x) auto
    ultimately show ?thesis
      using True delete_id_accepts [OF assms, of i] lc_step.acknowledge [of i "lifecycle_of d"] by auto
  next
    case False
    let ?b = "if \<exists>a. lc_binding (lifecycle_of d) i = Destroyed a then Unbound else lc_binding (lifecycle_of d) i"
    have "lc_step (lifecycle_of d) (Reject i) ((lifecycle_of d)\<lparr>lc_binding := (lc_binding (lifecycle_of d))(i := ?b)\<rparr>)"
      using False delete_id_accepts [OF assms, of i] by (intro lc_step.reject) auto
    moreover have "lifecycle_of ?d' = (lifecycle_of d)\<lparr>lc_binding := (lc_binding (lifecycle_of d))(i := ?b)\<rparr>"
      using False by (intro lifecycle_eqI) (auto simp: delete_id_binding delete_id_status abs_binding_iff)
    ultimately show ?thesis unfolding if_not_P [OF False] by (simp only:)
  qed
qed

text \<open>An operation on the tables changes the binding of at most one ID.\<close>

lemma bindings_eq:
  assumes "id_state d' = id_state d" "\<And>j. objectAt d' j = (if j = i then x else objectAt d j)"
  shows "lifecycle_of d' = (lifecycle_of d)\<lparr>lc_binding := (lc_binding (lifecycle_of d))(i := abs_binding x)\<rparr>"
  using assms(1) by (intro lifecycle_eqI) (auto simp: assms(2) abs_status_def id_state_def)

definition lc_skip :: "lifecycle \<Rightarrow> action option \<Rightarrow> lifecycle \<Rightarrow> bool" where
  "lc_skip s x s' \<longleftrightarrow> (case x of None \<Rightarrow> s' = s | Some y \<Rightarrow> lc_step s y s')"

lemma Register_refines:
  "\<exists>x. x \<in> {None, Some (Bind_ID (pid d a) a)} \<and> lc_skip (lifecycle_of d) x (lifecycle_of (Register d (Some a)))"
proof (cases "pid d a \<noteq> 0 \<and> \<not> cx_closed (d_context d) \<and> p_context (d_heap d a) = Some (cx_ref (d_context d))")
  case True
  then have "lifecycle_of (Register d (Some a)) =
      (lifecycle_of d)\<lparr>lc_binding := (lc_binding (lifecycle_of d))(pid d a := abs_binding (Some (ProxyObj a)))\<rparr>"
    by (intro bindings_eq) (simp_all add: Register_def id_state_def)
  then have "lc_skip (lifecycle_of d) (Some (Bind_ID (pid d a) a)) (lifecycle_of (Register d (Some a)))"
    using True lc_step.bind_id [of "lifecycle_of d" "pid d a" a] by (simp add: lc_skip_def)
  then show ?thesis by blast
next
  case False
  then have "Register d (Some a) = d" unfolding Register_def option.case by presburger
  then have "lc_skip (lifecycle_of d) None (lifecycle_of (Register d (Some a)))" by (simp add: lc_skip_def)
  then show ?thesis by blast
qed

lemma Unregister_refines:
  "lc_skip (lifecycle_of d) (if objectAt d (pid d a) = Some (ProxyObj a) then Some (Unbind (pid d a) a) else None)
     (lifecycle_of (Unregister d (Some a)))"
proof (cases "objectAt d (pid d a) = Some (ProxyObj a)")
  case True
  then have "lifecycle_of (Unregister d (Some a)) =
      (lifecycle_of d)\<lparr>lc_binding := (lc_binding (lifecycle_of d))(pid d a := abs_binding None)\<rparr>"
    by (intro bindings_eq) (simp_all add: Unregister_def id_state_def)
  then show ?thesis using True lc_step.unbind [of "lifecycle_of d" "pid d a" a] by (simp add: lc_skip_def)
next
  case False
  then have "lifecycle_of (Unregister d (Some a)) = lifecycle_of d"
    by (intro lifecycle_eqI) (auto simp: Unregister_def abs_status_def)
  then show ?thesis using False by (simp add: lc_skip_def)
qed

lemma UnregisterID_refines: "lc_step (lifecycle_of d) (Forget i) (lifecycle_of (UnregisterID d i))"
proof -
  have "lifecycle_of (UnregisterID d i) = (lifecycle_of d)\<lparr>lc_binding := (lc_binding (lifecycle_of d))(i := abs_binding None)\<rparr>"
    by (intro bindings_eq) (simp_all add: UnregisterID_def id_state_def)
  then show ?thesis using lc_step.forget [of "lifecycle_of d" i] by simp
qed

lemma claimDestroy_refines:
  assumes "tables_inv d"
  shows "lc_skip (lifecycle_of d) (if fst (claimDestroy d (Some a)) = None then Some (Destroy (pid d a) a) else None)
    (lifecycle_of (snd (claimDestroy d (Some a))))"
proof (cases rule: claimDestroy_cases [of d "Some a"])
  case (refused err)
  then show ?thesis by (simp add: lc_skip_def)
next
  case (claimed b)
  then have o: "objectAt d (pid d a) = Some (ProxyObj a)" using assms by (auto simp: CheckProxy_None tables_inv_def)
  then have "lifecycle_of (snd (claimDestroy d (Some a))) =
      (lifecycle_of d)\<lparr>lc_binding := (lc_binding (lifecycle_of d))(pid d a := abs_binding (Some (ZombieObj a)))\<rparr>"
    using claimed by (intro bindings_eq) (simp_all add: id_state_def)
  then show ?thesis
    using o claimed lc_step.destroy [of "lifecycle_of d" "pid d a" a] by (simp add: lc_skip_def)
qed

text \<open>The steps on one table alone: the context's table is invisible in the specification.\<close>

lemma lifecycle_set_proxies [simp]: "lifecycle_of (set_proxies d t) = lifecycle_of d"
  by (rule lifecycle_of_cong) (simp_all add: id_state_def set_proxies_def)

text \<open>What each step of the connection is in the specification: its actions are read off the label.\<close>

fun acts :: "label \<Rightarrow> action list" where
  "acts (LAllocate i) = [if i = 0 then Exhausted else Allocate i]"
| "acts (LMicro t (StoreObj i a) ok n) = [Bind_ID i a]"
| "acts (LMicro t (DropObj i a) ok n) = (if ok then [Unbind i a] else [])"
| "acts (LMicro t (DeleteObj i) ok n) = [Forget i]"
| "acts (LMicro t (SwapObj i a) ok n) = (if ok then [Destroy i a] else [])"
| "acts (LBury i (Some (ZombieObj a)) ok) = (if ok then [Bury i a] else [])"
| "acts (LRetire i live ok) = (if ok \<and> \<not> live then [Release i] else [])"
| "acts l = []"

lemma acts_release: "Acknowledge i \<notin> set (acts l)" "Release i \<in> set (acts l) \<Longrightarrow> l = LRetire i False True"
  by (cases l rule: acts.cases; auto split: if_splits)+

text \<open>The table operations that compare, on the display's table.\<close>

lemma CompareAndDelete_lifecycle:
  assumes "CompareAndDelete (d_objects d) i ob = (ok, u)"
  shows "ok \<longleftrightarrow> objectAt d i = Some ob"
    and "lifecycle_of (set_objects d u) =
      (if ok then (lifecycle_of d)\<lparr>lc_binding := (lc_binding (lifecycle_of d))(i := Unbound)\<rparr> else lifecycle_of d)"
  using assms
  by (auto simp: CompareAndDelete_def set_objects_def id_state_def abs_status_def intro!: lifecycle_eqI split: if_splits)

lemma CompareAndSwap_lifecycle:
  assumes "CompareAndSwap (d_objects d) i ob new = (ok, u)"
  shows "ok \<longleftrightarrow> objectAt d i = Some ob"
    and "lifecycle_of (set_objects d u) =
      (if ok then (lifecycle_of d)\<lparr>lc_binding := (lc_binding (lifecycle_of d))(i := abs_binding (Some new))\<rparr>
       else lifecycle_of d)"
  using assms
  by (auto simp: CompareAndSwap_def set_objects_def id_state_def abs_status_def intro!: lifecycle_eqI split: if_splits)

lemma micro_refines:
  assumes "micro_step w d = (ok, d', n)"
  shows "lc_run (lifecycle_of d) (acts (LMicro t w ok n)) (lifecycle_of d')"
proof (cases w)
  case (StoreObj i a)
  then have "lifecycle_of d' = (lifecycle_of d)\<lparr>lc_binding := (lc_binding (lifecycle_of d))(i := Bound (ProxyObj a))\<rparr>"
    using assms by (auto simp: set_objects_def abs_status_def intro!: lifecycle_eqI)
  then show ?thesis using StoreObj lc_step.bind_id [of "lifecycle_of d" i a] by (simp add: lc_run_single)
next
  case (DropObj i a)
  then obtain u where "CompareAndDelete (d_objects d) i (ProxyObj a) = (ok, u)" "d' = set_objects d u"
    using assms by (auto split: prod.splits)
  then show ?thesis
    using DropObj CompareAndDelete_lifecycle [of d i "ProxyObj a" ok u] lc_step.unbind [of "lifecycle_of d" i a]
    by (auto simp: lc_run_single lc_run.nil)
next
  case (DeleteObj i)
  then have "lifecycle_of d' = (lifecycle_of d)\<lparr>lc_binding := (lc_binding (lifecycle_of d))(i := Unbound)\<rparr>"
    using assms by (auto simp: set_objects_def abs_status_def intro!: lifecycle_eqI)
  then show ?thesis using DeleteObj lc_step.forget [of "lifecycle_of d" i] by (simp add: lc_run_single)
next
  case (SwapObj i a)
  then obtain u where "CompareAndSwap (d_objects d) i (ProxyObj a) (ZombieObj a) = (ok, u)" "d' = set_objects d u"
    using assms by (auto split: prod.splits)
  then show ?thesis
    using SwapObj CompareAndSwap_lifecycle [of d i "ProxyObj a" "ZombieObj a" ok u] lc_step.destroy [of "lifecycle_of d" i a]
    by (auto simp: lc_run_single lc_run.nil)
qed (use assms lc_run.nil in \<open>auto simp: case_prod_beta Let_def\<close>)

lemma bury_refines:
  assumes "bury d i ob = (ok, d')"
  shows "lc_run (lifecycle_of d) (acts (LBury i ob ok)) (lifecycle_of d')"
proof (cases "is_zombie_entry ob")
  case True
  then obtain a where ob: "ob = Some (ZombieObj a)" by (auto simp: is_zombie_entry_def split: option.splits object.splits)
  then obtain u where "CompareAndDelete (d_objects d) i (ZombieObj a) = (ok, u)" "d' = set_objects d u"
    using assms True by (auto simp: bury_def split: prod.splits)
  then show ?thesis
    using ob CompareAndDelete_lifecycle [of d i "ZombieObj a" ok u] lc_step.bury [of "lifecycle_of d" i a]
    by (auto simp: lc_run_single lc_run.nil)
next
  case False
  then have "acts (LBury i ob ok) = []" by (cases "LBury i ob ok" rule: acts.cases) (auto simp: is_zombie_entry_def)
  then show ?thesis using assms False lc_run.nil by (simp add: bury_def)
qed

lemma retire_refines:
  assumes "retire d i live = (r, d')"
  shows "lc_run (lifecycle_of d) (acts (LRetire i live (r = None))) (lifecycle_of d')"
proof (cases "r = None")
  case True
  have ok: "2 \<le> i" "i < 0xff000000" "i < d_nextID d" "\<not> live" "i \<notin> d_retiredIDs d"
    using retire_state(4) [of d i live] assms True by simp_all
  then have "client_id i" "lc_status (lifecycle_of d) i = Used" by (simp_all add: client_id_def abs_status_def)
  note step = lc_step.release [OF this]
  have "d' = d\<lparr>d_retiredIDs := insert i (d_retiredIDs d), d_freeIDs := d_freeIDs d @ [i]\<rparr>"
    using assms True by (auto simp: retire_def split: if_splits)
  then have "lifecycle_of d' = (lifecycle_of d)\<lparr>lc_status := (lc_status (lifecycle_of d))(i := Free)\<rparr>"
    by (intro lifecycle_eqI) (auto simp: abs_status_def)
  then show ?thesis using True ok step by (simp add: lc_run_single)
next
  case False
  then have "d' = d" using assms by (auto simp: retire_def split: if_splits)
  moreover have "acts (LRetire i live (r = None)) = []" unfolding eq_False [THEN iffD2, OF False] by simp
  ultimately show ?thesis using lc_run.nil by simp
qed

section \<open>The whole connection refines the specification\<close>

text \<open>The other steps leave the ID state alone as well as the tables.\<close>

lemma quiet_id_state:
  "local_call x \<Longrightarrow> id_state (run_api x d) = id_state d"
  "id_state (snd (send_write d buf fds)) = id_state d"
  "id_state (snd (prepareFrame d f)) = id_state d" "id_state (log_delivery d y) = id_state d"
  "id_state (snd (fail d e)) = id_state d" "id_state (closePendingFDs d) = id_state d"
  "id_state (call_global_handler idle_app n v h d) = id_state d"
proof -
  show "local_call x \<Longrightarrow> id_state (run_api x d) = id_state d"
    by (cases x) (simp_all add: id_state_def new_proxy_def SetID_def SetContext_def SetVersion_def Let_def
        AddHandler_def AddGlobalHandler_def AddGlobalRemoveHandler_def RegisterEventSignature_def split: option.split)
  show "id_state (call_global_handler idle_app n v h d) = id_state d"
    by (cases h) (simp_all add: idle_app_def id_state_def log_delivery_def Let_def split: option.split)
qed (simp_all add: id_state_def send_write_def closePendingFDs_def prepareFrame_def log_delivery_def
      fail_def Let_def case_prod_beta split: option.split)

lemma lifecycle_unchanged: "id_state d' = id_state d \<Longrightarrow> tab_state d' = tab_state d \<Longrightarrow> lifecycle_of d' = lifecycle_of d"
  by (rule lifecycle_of_cong) (simp_all add: tab_state_def)

lemma quiet_lifecycle:
  "local_call x \<Longrightarrow> lifecycle_of (run_api x d) = lifecycle_of d"
  "lifecycle_of (snd (send_write d buf fds)) = lifecycle_of d"
  "lifecycle_of (snd (prepareFrame d f)) = lifecycle_of d" "lifecycle_of (log_delivery d y) = lifecycle_of d"
  "lifecycle_of (snd (fail d e)) = lifecycle_of d" "lifecycle_of (closePendingFDs d) = lifecycle_of d"
  "lifecycle_of (call_global_handler idle_app n v h d) = lifecycle_of d"
  by (rule lifecycle_unchanged; simp add: quiet_id_state quiet_tab_state)+

lemma display_event_lifecycle:
  "oc \<noteq> 1 \<or> length b \<noteq> 4 \<Longrightarrow> lifecycle_of (snd (handleDisplayEvent d oc b)) = lifecycle_of d"
  by (auto simp: handleDisplayEvent_def Let_def case_prod_beta split: option.splits)

lemma step_refines:
  assumes "sys_step U s l s'" "id_inv (s_d s)"
  shows "lc_run (lifecycle_of (s_d s)) (acts l) (lifecycle_of (s_d s'))"
proof -
  have same: ?thesis if "acts l = []" "lifecycle_of (s_d s') = lifecycle_of (s_d s)"
    using that lc_run.nil by simp
  show ?thesis using assms(1)
  proof (cases rule: sys_step.cases)
    case (written t j r d')
    then show ?thesis using quiet_lifecycle(2) [of "s_d s" "j_data j" "j_fds j"] by (intro same) simp_all
  next
    case (allocate i d')
    then have "fst (allocateID (s_d s)) = i" "snd (allocateID (s_d s)) = s_d s'" by simp_all
    then show ?thesis using lc_run_single [OF allocateID_refines [OF assms(2)]] allocate(1) by (cases "i = 0") simp_all
  next
    case (micro t w ok d' n)
    then show ?thesis using micro_refines by simp
  next
    case (frame r d')
    have "core d' = core (s_d s)" using core_recv.nextFrame [OF frame(5)] by blast
    then show ?thesis using frame by (intro same lifecycle_unchanged) (simp_all add: core_def tab_state_def id_state_def)
  next
    case (prepare_err f err d')
    then show ?thesis using quiet_lifecycle(3) [of "s_d s" f] by (intro same) simp_all
  next
    case (prepare f obj ev d')
    then show ?thesis using quiet_lifecycle(3) [of "s_d s" f] by (intro same) simp_all
  next
    case (prepare_display f d')
    then show ?thesis using quiet_lifecycle(3) [of "s_d s" f] by (intro same) simp_all
  next
    case (display_event f err d')
    then show ?thesis using display_event_lifecycle [of "f_opcode f" "f_body f" "s_d s"] by (intro same) simp_all
  next
    case (bury i ob ok d')
    then show ?thesis using bury_refines by simp
  next
    case (retire i live r d')
    then show ?thesis using retire_refines [of "s_d s" i live] by simp
  next
    case (take_fd ev x ev' d')
    then have "id_state d' = id_state (s_d s)" "tab_state d' = tab_state (s_d s)"
      by (auto simp: Let_def case_prod_beta tab_state_def id_state_def split: sum.splits)
    then show ?thesis using take_fd by (intro same lifecycle_unchanged) simp_all
  qed (intro same; simp add: quiet_lifecycle;
       rule lifecycle_unchanged; simp add: id_state_def tab_state_def store_global_def drop_global_def)+
qed

lemma run_refines:
  "sys_run U s ls s' \<Longrightarrow> id_inv (s_d s) \<Longrightarrow> lc_run (lifecycle_of (s_d s)) (concat (map acts ls)) (lifecycle_of (s_d s'))"
proof (induction rule: sys_run.induct)
  case (cons s l s1 ls s2)
  then show ?case using lc_run_append step_refines [OF cons.hyps(1)] id_sys.step [OF cons.hyps(1)] by simp
qed (simp add: lc_run.nil)

text \<open>Between two allocations of an ID the ID is given back.\<close>

lemma reallocated:
  assumes "sys_run U s (xs @ LAllocate i # ys @ LAllocate i # zs) s'" "id_inv (s_d s)" "i \<noteq> 0"
  shows "LRetire i False True \<in> set ys"
proof (rule ccontr)
  assume c: "LRetire i False True \<notin> set ys"
  obtain s1 s2 s3 s4 where r: "sys_run U s xs s1" "sys_step U s1 (LAllocate i) s2" "sys_run U s2 ys s3"
      "sys_step U s3 (LAllocate i) s4"
    using assms(1) by (auto simp: sys_run_append sys_run_Cons_iff)
  note inv1 = id_sys.run [OF r(1) assms(2)]
  note inv2 = id_sys.step [OF r(2) inv1]
  note inv3 = id_sys.run [OF r(3) inv2]
  have al: "available (lifecycle_of (s_d x)) i \<and> lc_status (lifecycle_of (s_d y)) i = Used"
    if "sys_step U x (LAllocate i) y" "id_inv (s_d x)" for x y
  proof -
    have "allocateID (s_d x) = (i, s_d y)" using that(1) by (auto elim!: allocateE)
    then have "lc_step (lifecycle_of (s_d x)) (Allocate i) (lifecycle_of (s_d y))"
      using allocateID_refines [OF that(2)] assms(3) by simp
    then show ?thesis by cases (simp del: lifecycle_of_sel)
  qed
  have "Acknowledge i \<notin> set (concat (map acts ys))" "Release i \<notin> set (concat (map acts ys))"
    using c acts_release by fastforce+
  then have "lc_status (lifecycle_of (s_d s3)) i = Used"
    using lc_used_until_released [OF run_refines [OF r(3) inv2]] al [OF r(2) inv1] by blast
  then show False using al [OF r(4) inv3] by (simp add: available_def)
qed

lemma claim_goes_on: "sys_run U s ls s' \<Longrightarrow> LMicro t (ClaimProxy i a) True n \<in> set ls \<Longrightarrow> n = Some (SwapObj i a)"
proof (induction rule: sys_run.induct)
  case (cons s l s1 ls s2)
  then show ?case by (auto elim!: microE simp: case_prod_beta Let_def)
qed simp

section \<open>Properties\<close>

text \<open>
  C10: every operation on IDs and objects does one step of the abstract life cycle. An allocation
  returns an available ID, and 0 exactly when no client ID is available; a \<^verbatim>\<open>delete_id\<close> is
  acknowledged or rejected as the specification says; a claim destroys a live object; registering binds, and
  unregistering unbinds only the object's own entry.
\<close>

theorem operations_refine_lifecycle:
  assumes "id_inv d" "tables_inv d"
  shows "lc_step (lifecycle_of d) (if fst (allocateID d) = 0 then Exhausted else Allocate (fst (allocateID d)))
      (lifecycle_of (snd (allocateID d))) \<and>
    (fst (allocateID d) = 0 \<longleftrightarrow> (\<forall>i. \<not> available (lifecycle_of d) i)) \<and>
    lc_step (lifecycle_of d) (if fst (delete_id d i) = None then Acknowledge i else Reject i)
      (lifecycle_of (snd (delete_id d i))) \<and>
    lc_skip (lifecycle_of d) (if fst (claimDestroy d (Some a)) = None then Some (Destroy (pid d a) a) else None)
      (lifecycle_of (snd (claimDestroy d (Some a)))) \<and>
    lc_skip (lifecycle_of d) (if objectAt d (pid d a) = Some (ProxyObj a) then Some (Unbind (pid d a) a) else None)
      (lifecycle_of (Unregister d (Some a))) \<and>
    (\<exists>x. x \<in> {None, Some (Bind_ID (pid d a) a)} \<and> lc_skip (lifecycle_of d) x (lifecycle_of (Register d (Some a)))) \<and>
    lc_step (lifecycle_of d) (Forget i) (lifecycle_of (UnregisterID d i))"
proof -
  have "fst (allocateID d) = 0 \<longleftrightarrow> (\<forall>i. \<not> available (lifecycle_of d) i)"
    using allocateID_refines [OF assms(1)] by (auto simp: lc_allocate_iff lc_exhausted_iff split: if_splits)
  then show ?thesis
    using allocateID_refines [OF assms(1)] delete_id_refines [OF assms(1), of i] claimDestroy_refines [OF assms(2), of a]
      Unregister_refines [of d a] Register_refines [of d a] UnregisterID_refines [of d i]
    by (intro conjI)
qed


theorem operations_refine_lifecycle_witness:
  "lc_step (lifecycle_of one_proxy_display) (Allocate 4) (lifecycle_of (snd (allocateID one_proxy_display))) \<and>
   lc_step (lifecycle_of one_proxy_display) (Reject 3) (lifecycle_of (snd (delete_id one_proxy_display 3)))"
proof -
  have "fst (allocateID one_proxy_display) = 4" "fst (delete_id one_proxy_display 3) \<noteq> None"
    by (simp_all add: display_eval allocateID_def delete_id_ok)
  then show ?thesis
    using operations_refine_lifecycle [OF one_proxy_display_inv(2,1), of 3 0] by (simp del: not_None_eq)
qed


end
