(* ===== verification/WellFormed.thy ===== *)
theory WellFormed
  imports Concurrent
begin

text \<open>
  The state of a connection is well formed in every interleaving: the read position lies inside the
  receive buffer, so that no slice expression of the receive path is out of range, the
  buffer never grows beyond one incomplete message and one read, and the flags of the
  display, its context and its socket are set in the order in which \<^verbatim>\<open>Close\<close> sets them.
\<close>

section \<open>The receive buffer\<close>

text \<open>What \<^verbatim>\<open>net.Conn\<close> promises: a read returns at most as many bytes as the buffer \<^verbatim>\<open>recvBuf\<close> has.\<close>

definition reads_fit :: "display \<Rightarrow> bool" where
  "reads_fit d \<longleftrightarrow> (\<forall>r \<in> set (cn_in (d_conn d)). length (rd_data r) \<le> readChunkSize)"

definition maxBuffered :: nat where
  "maxBuffered = 0xfffe + readChunkSize"

definition buffer_ok :: "display \<Rightarrow> bool" where
  "buffer_ok d \<longleftrightarrow> reads_fit d \<and> d_rpos d \<le> length (d_rbuf d) \<and> length (d_rbuf d) \<le> maxBuffered"

lemma readChunk_fits:
  assumes "readChunk U d = Some ((bs, err), d')" "reads_fit d"
  shows "length bs \<le> readChunkSize \<and> reads_fit d' \<and> d_rbuf d' = d_rbuf d \<and> d_rpos d' = d_rpos d"
  using assms
  by (auto simp: readChunk_def reads_fit_def Let_def queueFDs_def split: if_splits list.splits option.splits)

lemma fill_buffer:
  assumes "fill U d = Some (e, d')" "buffer_ok d" "length (d_rbuf d) - d_rpos d \<le> 0xfffe"
  shows "buffer_ok d'"
proof (cases "d_readErr d")
  case None
  let ?d1 = "if d_rpos d > 0 then d\<lparr>d_rbuf := drop (d_rpos d) (d_rbuf d), d_rpos := 0\<rparr> else d"
  obtain bs err d2 where c: "readChunk U ?d1 = Some ((bs, err), d2)"
    using assms(1) None by (cases "readChunk U ?d1") (auto simp: fill_def Let_def)
  have 1: "reads_fit ?d1" "d_rpos ?d1 = 0" "length (d_rbuf ?d1) \<le> 0xfffe"
    using assms(2,3) by (auto simp: buffer_ok_def reads_fit_def)
  have "reads_fit d2" "d_rpos d2 = 0" "length (d_rbuf d2 @ bs) \<le> maxBuffered"
    using readChunk_fits [OF c 1(1)] 1 by (simp_all add: maxBuffered_def)
  then have "buffer_ok (if bs \<noteq> [] then d2\<lparr>d_rbuf := d_rbuf d2 @ bs\<rparr> else d2)"
    by (simp add: buffer_ok_def reads_fit_def)
  moreover have "buffer_ok (x\<lparr>d_readErr := y\<rparr>) = buffer_ok x" for x y by (simp add: buffer_ok_def reads_fit_def)
  ultimately show ?thesis
    using assms(1) None c by (auto simp: fill_def Let_def split: option.splits if_splits)
qed (use assms in \<open>simp add: fill_def\<close>)

lemma nextFrame_buffer: "nextFrame U d = Some (r, d') \<Longrightarrow> buffer_ok d \<Longrightarrow> buffer_ok d'"
proof (induction U d rule: nextFrame.induct)
  case (1 U d)
  let ?buf = "drop (d_rpos d) (d_rbuf d)"
  have on: "buffer_ok d'" if "read_on U d = Some (r, d')" "length ?buf \<le> 0xfffe"
  proof (cases "fill U d")
    case (Some x)
    then obtain e d1 where x: "fill U d = Some (e, d1)" by (cases x) auto
    then have "buffer_ok d1" using fill_buffer "1.prems"(2) that(2) by simp
    then show ?thesis using that x "1.IH" [OF refl _ refl] by (auto simp: read_on_def split: option.splits)
  qed (use that in \<open>simp add: read_on_def\<close>)
  show ?case
  proof (cases "HeaderSize \<le> length ?buf")
    case True
    show ?thesis
    proof (cases "parseHeader ?buf (maxMessageSize d)")
      case (Inl err)
      then show ?thesis using nextFrame_bad_header [OF True Inl, of U] "1.prems" by simp
    next
      case (Inr x)
      then obtain ob oc sz where x: "parseHeader ?buf (maxMessageSize d) = Inr (ob, oc, sz)" by (cases x) auto
      have sz: "unat sz \<le> 0xffff" using parseHeader_Inr(3) [OF x] .
      show ?thesis
      proof (cases "unat sz \<le> length ?buf")
        case True
        then show ?thesis
          using nextFrame_header [OF \<open>HeaderSize \<le> length ?buf\<close> x, of U] "1.prems"
          by (auto simp: buffer_ok_def reads_fit_def)
      next
        case False
        then show ?thesis
          using nextFrame_header [OF \<open>HeaderSize \<le> length ?buf\<close> x, of U] "1.prems" on sz by simp
      qed
    qed
  next
    case False
    then show ?thesis using nextFrame_short [of d U] "1.prems"(1) on by (simp add: HeaderSize_def)
  qed
qed

lemma buffer_conn:
  "buffer_ok d \<Longrightarrow> buffer_ok (d\<lparr>d_conn := snd (conn_Write (d_conn d) buf fds)\<rparr>)"
  "buffer_ok d \<Longrightarrow> buffer_ok (d\<lparr>d_conn := snd (conn_Close (d_conn d))\<rparr>)"
  by (auto simp: buffer_ok_def reads_fit_def conn_Write_def conn_Close_def split: list.splits)

lemma buffer_tables:
  "buffer_ok (set_proxies d t) = buffer_ok d" "buffer_ok (set_objects d u) = buffer_ok d"
  "buffer_ok (fst (snd (micro_step w d))) = buffer_ok d" "buffer_ok (snd (bury d i ob)) = buffer_ok d"
  "buffer_ok (snd (retire d i live)) = buffer_ok d"
proof -
  show t: "buffer_ok (set_proxies d t) = buffer_ok d" "buffer_ok (set_objects d u) = buffer_ok d" for t u
    by (simp_all add: buffer_ok_def reads_fit_def set_proxies_def set_objects_def)
  show "buffer_ok (fst (snd (micro_step w d))) = buffer_ok d" by (cases w) (simp_all add: t case_prod_beta Let_def)
  show "buffer_ok (snd (bury d i ob)) = buffer_ok d" by (simp add: bury_def t case_prod_beta Let_def)
  show "buffer_ok (snd (retire d i live)) = buffer_ok d" by (simp add: retire_def buffer_ok_def reads_fit_def)
qed

interpretation buf_sys: system_invariant buffer_ok
  by (unfold_locales;
      (erule buffer_conn | erule (1) nextFrame_buffer | simp only: buffer_tables |
       auto simp: buffer_ok_def reads_fit_def op_defs Let_def case_prod_beta split: option.splits if_splits))

section \<open>The flags\<close>

text \<open>
  How far \<^verbatim>\<open>Close\<close> has come determines the flags: each of its steps sets one, and nothing resets it. A
  failed write may close the socket before.
\<close>

definition flags_ok :: "system \<Rightarrow> bool" where
  "flags_ok s \<longleftrightarrow>
     (d_closed (s_d s) \<longleftrightarrow> s_closing s \<noteq> NotClosed) \<and>
     (if s_closing s \<in> {ContextMarked, SocketClosed, Released} then cx_closed (d_context (s_d s)) else True) \<and>
     (if s_closing s \<in> {SocketClosed, Released} then cn_closed (d_conn (s_d s)) else True) \<and>
     (if s_closing s = Released then d_pendingFDs (s_d s) = [] else True)"

text \<open>What every other step does with the flags, and with the queue of a closed display.\<close>

definition keeps_flags :: "display \<Rightarrow> display \<Rightarrow> bool" where
  "keeps_flags d d' \<longleftrightarrow> d_closed d' = d_closed d \<and> (cx_closed (d_context d) \<longrightarrow> cx_closed (d_context d')) \<and>
     (cn_closed (d_conn d) \<longrightarrow> cn_closed (d_conn d')) \<and> (d_closed d \<longrightarrow> d_pendingFDs d = [] \<longrightarrow> d_pendingFDs d' = [])"

lemma keeps_flags_trivial [simp]:
  "keeps_flags d d" "keeps_flags d (set_proxies d t)" "keeps_flags d (set_objects d u)"
  "keeps_flags d (log_delivery d y)" "keeps_flags d (snd (retire d i live))"
  "keeps_flags d (d\<lparr>d_closedFDs := fs\<rparr>)"
  "keeps_flags d (store_global d n iface v)" "keeps_flags d (drop_global d n)"
  by (simp_all add: keeps_flags_def set_proxies_def set_objects_def log_delivery_def retire_def store_global_def
      drop_global_def)

lemma keeps_flags_ops:
  "local_call x \<Longrightarrow> keeps_flags d (run_api x d)" "keeps_flags d (snd (allocateID d))"
  "keeps_flags d (snd (send_write d buf fds))" "keeps_flags d (fst (snd (micro_step w d)))"
  "keeps_flags d (snd (prepareFrame d f))" "keeps_flags d (snd (bury d i ob))"
  "keeps_flags d (snd (fail d e))" "keeps_flags d (call_global_handler idle_app n v h d)"
proof -
  show "local_call x \<Longrightarrow> keeps_flags d (run_api x d)"
    by (cases x) (simp_all add: keeps_flags_def new_proxy_def SetID_def SetContext_def SetVersion_def Let_def
        AddHandler_def AddGlobalHandler_def AddGlobalRemoveHandler_def RegisterEventSignature_def split: option.split)
  show "keeps_flags d (fst (snd (micro_step w d)))" by (cases w) (simp_all add: case_prod_beta Let_def)
  show "keeps_flags d (call_global_handler idle_app n v h d)"
    by (cases h) (simp_all add: idle_app_def keeps_flags_def log_delivery_def Let_def split: option.split)
  show "keeps_flags d (snd (send_write d buf fds))"
    by (simp add: keeps_flags_def send_write_def conn_Write_def conn_Close_def Let_def case_prod_beta split: list.split)
  show "keeps_flags d (snd (bury d i ob))" by (simp add: bury_def case_prod_beta Let_def)
qed (simp_all add: keeps_flags_def allocateID_def closePendingFDs_def prepareFrame_def fail_def Let_def case_prod_beta
      split: option.split)

lemma quiet_step_flags:
  assumes "sys_step U s l s'" "\<forall>c. l \<noteq> LClose c"
  shows "keeps_flags (s_d s) (s_d s') \<and> s_closing s' = s_closing s"
  using assms(1)
proof (cases rule: sys_step.cases)
  case (written t j r d')
  then show ?thesis using keeps_flags_ops(3) [of "s_d s" "j_data j" "j_fds j"] by simp
next
  case (allocate i d')
  then show ?thesis using keeps_flags_ops(2) [of "s_d s"] by simp
next
  case (micro t w ok d' n)
  then show ?thesis using keeps_flags_ops(4) [of "s_d s" w] by simp
next
  case (frame r d')
  have "core d' = core (s_d s)" using core_recv.nextFrame [OF frame(5)] by blast
  then show ?thesis using frame by (simp add: core_def keeps_flags_def)
next
  case (prepare_err f err d')
  then show ?thesis using keeps_flags_ops(5) [of "s_d s" f] by simp
next
  case (prepare f obj ev d')
  then show ?thesis using keeps_flags_ops(5) [of "s_d s" f] by simp
next
  case (prepare_display f d')
  then show ?thesis using keeps_flags_ops(5) [of "s_d s" f] by simp
next
  case (display_event f err d')
  then have "d' = s_d s" by (auto simp: handleDisplayEvent_def Let_def case_prod_beta split: option.splits if_splits)
  then show ?thesis using display_event by simp
next
  case (bury i ob ok d')
  then show ?thesis using keeps_flags_ops(6) [of "s_d s" i ob] by simp
next
  case (retire i live r d')
  then show ?thesis using keeps_flags_trivial(5) [of "s_d s" i live] by simp
next
  case (take_fd ev x ev' d')
  then have "keeps_flags (s_d s) d'" by (auto simp: Let_def case_prod_beta keeps_flags_def split: sum.splits)
  then show ?thesis using take_fd by simp
qed (use assms(2) in \<open>simp_all add: keeps_flags_ops, auto simp: keeps_flags_def\<close>)

lemma step_flags:
  assumes "sys_step U s l s'" "flags_ok s"
  shows "flags_ok s'"
proof (cases "\<exists>c. l = LClose c")
  case True
  then show ?thesis
    using assms by (auto simp: flags_ok_def conn_Close_def closePendingFDs_def elim!: closeE)
next
  case False
  then have "keeps_flags (s_d s) (s_d s')" "s_closing s' = s_closing s" using quiet_step_flags [OF assms(1)] by blast+
  then show ?thesis using assms(2) by (auto simp: flags_ok_def keeps_flags_def split: if_splits)
qed

lemma run_flags: "sys_run U s ls s' \<Longrightarrow> flags_ok s \<Longrightarrow> flags_ok s'"
  by (induction rule: sys_run.induct) (auto intro: step_flags)

text \<open>A display that failed to connect is closed altogether, any other is open.\<close>

lemma connect_flags: "flags_ok (initial (snd (ConnectFromConn c isUnix ref heap brk)))"
proof -
  let ?d = "newDisplay c isUnix ref heap brk"
  obtain e d1 where g: "getRegistry ?d = (e, d1)" by (cases "getRegistry ?d")
  have "d_closed (snd (getRegistry ?d)) = d_closed ?d \<and> d_pendingFDs (snd (getRegistry ?d)) = d_pendingFDs ?d"
    by (simp add: getRegistry_def Display_SendRequest_def Display_SendRequestWithFDs_def sendRequest_def sendmsgWithFDs_def run_guard_def Let_def case_prod_beta split: sum.split)
  then have "\<not> d_closed d1" by (simp add: g)
  then have "flags_ok (initial d1)" "flags_ok (initial (snd (Close d1)))"
    by (simp_all add: flags_ok_def initial_def Close_def closePendingFDs_def conn_Close_def Let_def)
  then show ?thesis using g by (cases e) (simp_all add: ConnectFromConn_def)
qed

section \<open>Properties\<close>

lemma buffer_newDisplay:
  "(\<forall>r \<in> set (cn_in c). length (rd_data r) \<le> readChunkSize) \<Longrightarrow> buffer_ok (newDisplay c x ref h b)"
  by (simp add: buffer_ok_def reads_fit_def)

text \<open>
  C11: the state is well formed. On a socket whose reads fit the read buffer, however the application, the
  dispatch loop and \<^verbatim>\<open>Close\<close> interleave, the read position is inside the receive buffer, so that
  \<^verbatim>\<open>d.rbuf[d.rpos:]\<close> cannot panic, and the buffer holds at most 131070 bytes. The flags follow the four steps of
  \<^verbatim>\<open>Close\<close>: the display is closed exactly when \<^verbatim>\<open>Close\<close> has begun, the context is closed from its second
  step on and the socket from its third, and once it has returned no descriptor is pending, now or later.
\<close>

theorem display_well_formed:
  assumes "\<forall>r \<in> set (cn_in c). length (rd_data r) \<le> readChunkSize"
    and "sys_run U (initial (snd (ConnectFromConn c isUnix ref heap brk))) ls s"
  shows "d_rpos (s_d s) \<le> length (d_rbuf (s_d s)) \<and> length (d_rbuf (s_d s)) \<le> 131070 \<and>
    (d_closed (s_d s) \<longleftrightarrow> s_closing s \<noteq> NotClosed) \<and>
    (if s_closing s \<in> {ContextMarked, SocketClosed, Released} then cx_closed (d_context (s_d s)) else True) \<and>
    (if s_closing s \<in> {SocketClosed, Released} then cn_closed (d_conn (s_d s)) else True) \<and>
    (if s_closing s = Released then d_pendingFDs (s_d s) = [] else True)"
proof -
  have "buffer_ok (s_d (initial (snd (ConnectFromConn c isUnix ref heap brk))))"
    using buf_sys.ConnectFromConn [OF buffer_newDisplay [OF assms(1)]] by simp
  then have "buffer_ok (s_d s)" using assms(2) buf_sys.run by blast
  moreover have "flags_ok s" using run_flags [OF assms(2) connect_flags] .
  ultimately show ?thesis by (simp add: buffer_ok_def flags_ok_def maxBuffered_def readChunkSize_def)
qed

text \<open>The state between the third and the fourth step of \<^verbatim>\<open>Close\<close>.\<close>

theorem display_well_formed_witness:
  "\<exists>s. sys_run linux_unix (initial connected) [LClose Marked, LClose ContextMarked, LClose SocketClosed] s \<and>
     d_closed (s_d s) \<and> cx_closed (d_context (s_d s)) \<and> cn_closed (d_conn (s_d s)) \<and> d_rpos (s_d s) \<le> length (d_rbuf (s_d s))"
proof -
  let ?s0 = "initial connected"
  let ?s1 = "?s0\<lparr>s_d := (s_d ?s0)\<lparr>d_closed := True\<rparr>, s_closing := Marked\<rparr>"
  let ?s2 = "?s1\<lparr>s_d := (s_d ?s1)\<lparr>d_context := (d_context (s_d ?s1))\<lparr>cx_closed := True\<rparr>\<rparr>, s_closing := ContextMarked\<rparr>"
  let ?s3 = "?s2\<lparr>s_d := (s_d ?s2)\<lparr>d_conn := snd (conn_Close (d_conn (s_d ?s2)))\<rparr>, s_closing := SocketClosed\<rparr>"
  have 1: "sys_step linux_unix ?s0 (LClose Marked) ?s1" by (rule sys_step.close_mark) (simp add: connected_open)
  have 2: "sys_step linux_unix ?s1 (LClose ContextMarked) ?s2" by (rule sys_step.close_context) simp
  have 3: "sys_step linux_unix ?s2 (LClose SocketClosed) ?s3" by (rule sys_step.close_socket) simp
  have r: "sys_run linux_unix ?s0 [LClose Marked, LClose ContextMarked, LClose SocketClosed] ?s3"
    by (rule sys_run.cons [OF 1 sys_run.cons [OF 2 sys_run.cons [OF 3 sys_run.nil]]])
  have "\<forall>r \<in> set (cn_in idle_conn). length (rd_data r) \<le> readChunkSize" by (simp add: idle_conn_def)
  from display_well_formed [OF this r [unfolded connected_def]] show ?thesis
    using r unfolding connected_def [symmetric] by (intro exI [of _ "?s3"] conjI) simp_all
qed

end
