(* ===== verification/Connect.thy ===== *)
theory Connect
  imports Session
begin

text \<open>
  \<^verbatim>\<open>Connect\<close> of \<^verbatim>\<open>client.go\<close>: which socket it dials and what it returns. The environment
  (\<^verbatim>\<open>os.Getenv\<close>, the empty text for an unset variable) and \<^verbatim>\<open>net.Dial\<close> are parameters;
  \<^verbatim>\<open>filepath.IsAbs\<close> and \<^verbatim>\<open>filepath.Join\<close> are modelled as on Unix. The lemmas show that a
  cleaned path never leaves the directory it is rooted in, which socket is dialled in every case,
  and that a successful \<^verbatim>\<open>Connect\<close> starts a session.
\<close>

section \<open>Paths\<close>

definition IsAbs :: "string \<Rightarrow> bool" where
  "IsAbs path \<longleftrightarrow> take 1 path = ''/''"

text \<open>The elements of a path between its slashes.\<close>

fun path_elems :: "string \<Rightarrow> string list" where
  "path_elems [] = [[]]"
| "path_elems (c # cs) =
     (if c = CHR ''/'' then [] # path_elems cs
      else case path_elems cs of x # xs \<Rightarrow> (c # x) # xs | [] \<Rightarrow> [[c]])"

text \<open>
  The rules of \<^verbatim>\<open>filepath.Clean\<close>: an empty element and \<^verbatim>\<open>.\<close> are dropped, \<^verbatim>\<open>..\<close> removes the
  element before it, and at the root it is dropped. \<open>acc\<close> holds the elements kept so far,
  the last one first.
\<close>

fun clean_elems :: "bool \<Rightarrow> string list \<Rightarrow> string list \<Rightarrow> string list" where
  "clean_elems rooted acc [] = rev acc"
| "clean_elems rooted acc (x # xs) =
     (if x = [] \<or> x = ''.'' then clean_elems rooted acc xs
      else if x = ''..'' then
        (case acc of
           [] \<Rightarrow> clean_elems rooted (if rooted then [] else [''..'']) xs
         | y # ys \<Rightarrow> if y = ''..'' then clean_elems rooted (''..'' # acc) xs else clean_elems rooted ys xs)
      else clean_elems rooted (x # acc) xs)"

fun join_elems :: "string list \<Rightarrow> string" where
  "join_elems [] = []"
| "join_elems [x] = x"
| "join_elems (x # y # ys) = x @ ''/'' @ join_elems (y # ys)"

definition Clean :: "string \<Rightarrow> string" where
  "Clean path =
     (let rooted = IsAbs path;
          out = (if rooted then ''/'' else []) @ join_elems (clean_elems rooted [] (path_elems path))
      in if out = [] then ''.'' else out)"

definition Join :: "string \<Rightarrow> string \<Rightarrow> string" where
  "Join a b =
     (if a \<noteq> [] then Clean (a @ ''/'' @ b) else if b \<noteq> [] then Clean b else [])"

section \<open>Connect\<close>

text \<open>The path \<^verbatim>\<open>Connect\<close> dials.\<close>

definition resolve_socket :: "(string \<Rightarrow> string) \<Rightarrow> string \<Rightarrow> string result" where
  "resolve_socket getenv socketPath =
     (let p1 = (if socketPath = [] then getenv ''WAYLAND_DISPLAY'' else socketPath);
          p2 = (if socketPath = [] \<and> p1 = [] then ''wayland-0'' else p1)
      in if \<not> IsAbs p2 then
           let runDir = getenv ''XDG_RUNTIME_DIR''
           in if runDir = [] then Inl (Errorf ''XDG_RUNTIME_DIR not set'') else Inr (Join runDir p2)
         else Inr p2)"

text \<open>
  \<^verbatim>\<open>Connect\<close>: without a socket there is no display at all. A dialled Unix socket is a
  \<^verbatim>\<open>*net.UnixConn\<close>.
\<close>

definition Connect ::
  "(string \<Rightarrow> string) \<Rightarrow> (string \<Rightarrow> netConn result) \<Rightarrow> string \<Rightarrow> nat \<Rightarrow> (addr \<Rightarrow> proxy) \<Rightarrow> addr \<Rightarrow>
   error option \<times> display option" where
  "Connect getenv dial socketPath ref heap brk =
     (case resolve_socket getenv socketPath of
        Inl err \<Rightarrow> (Some err, None)
      | Inr path \<Rightarrow>
          (case dial path of
             Inl err \<Rightarrow> (Some (Wrap ''failed to connect to Wayland: '' err []), None)
           | Inr c \<Rightarrow> (let (err, d) = ConnectFromConn c True ref heap brk in (err, Some d))))"

section \<open>Properties of paths\<close>

lemma IsAbs_Cons: "IsAbs p \<longleftrightarrow> (\<exists>q. p = CHR ''/'' # q)"
  by (cases p) (auto simp: IsAbs_def)

lemma path_elems_not_Nil [simp]: "path_elems p \<noteq> []"
  by (induction p) (auto split: list.splits)

lemma path_elems_no_slash: "x \<in> set (path_elems p) \<Longrightarrow> CHR ''/'' \<notin> set x"
  by (induction p arbitrary: x) (auto split: if_splits list.splits)

text \<open>What a cleaned path is made of.\<close>

lemma clean_elems_rooted:
  assumes "''..'' \<notin> set acc" "[] \<notin> set acc" "''.'' \<notin> set acc"
  shows "set (clean_elems True acc xs) \<inter> {[], ''.'', ''..''} = {}"
  using assms by (induction True acc xs rule: clean_elems.induct) (auto split: list.splits)

lemma clean_elems_subset: "set (clean_elems rooted acc xs) \<subseteq> set acc \<union> set xs \<union> {''..''}"
proof (induction rooted acc xs rule: clean_elems.induct)
  case (2 rooted acc x xs)
  then show ?case by (cases acc) (auto split: if_splits)
qed auto

lemma path_elems_append:
  "CHR ''/'' \<notin> set b \<Longrightarrow> path_elems (a @ CHR ''/'' # b) = path_elems a @ [b]"
proof (induction a)
  case Nil
  then show ?case by (induction b) auto
next
  case (Cons c a)
  then show ?case by (cases "path_elems a") auto
qed

lemma clean_elems_snoc:
  assumes "x \<notin> {[], ''.'', ''..''}"
  shows "clean_elems rooted acc (xs @ [x]) = clean_elems rooted acc xs @ [x]"
  using assms
proof (induction rooted acc xs rule: clean_elems.induct)
  case (2 rooted acc y ys)
  then show ?case by (cases acc) auto
qed simp

lemma join_elems_path: 
  assumes "es \<noteq> []" "\<forall>x \<in> set es. CHR ''/'' \<notin> set x"
  shows "path_elems (join_elems es) = es"
  using assms
proof (induction es rule: join_elems.induct)
  case (2 x)
  then show ?case by (induction x) auto
next
  case (3 x y ys)
  have "path_elems (x @ CHR ''/'' # zs) = x # path_elems zs" if "CHR ''/'' \<notin> set x" for x zs
    using that by (induction x) auto
  then show ?case using 3 by simp
qed simp

text \<open>A cleaned absolute path has no empty element, no \<^verbatim>\<open>.\<close> and no \<^verbatim>\<open>..\<close> behind its root.\<close>

lemma Clean_abs:
  assumes "IsAbs path"
  shows "Clean path = CHR ''/'' # join_elems (clean_elems True [] (path_elems path))"
    and "x \<in> set (clean_elems True [] (path_elems path)) \<Longrightarrow> CHR ''/'' \<notin> set x \<and> x \<notin> {[], ''.'', ''..''}"
proof -
  show "Clean path = CHR ''/'' # join_elems (clean_elems True [] (path_elems path))"
    using assms by (simp add: Clean_def Let_def)
  show "x \<in> set (clean_elems True [] (path_elems path)) \<Longrightarrow> CHR ''/'' \<notin> set x \<and> x \<notin> {[], ''.'', ''..''}"
    using clean_elems_rooted [of "[]" "path_elems path"] clean_elems_subset [of True "[]" "path_elems path"]
      path_elems_no_slash [of x path] by auto
qed

lemma Join_name:
  assumes "IsAbs dir" "CHR ''/'' \<notin> set name" "name \<notin> {[], ''.'', ''..''}"
  shows "path_elems (Join dir name) = [] # clean_elems True [] (path_elems dir) @ [name]"
proof -
  let ?p = "dir @ ''/'' @ name"
  have abs: "IsAbs ?p" "dir \<noteq> []" using assms(1) by (auto simp: IsAbs_Cons)
  have e: "clean_elems True [] (path_elems ?p) = clean_elems True [] (path_elems dir) @ [name]"
    using clean_elems_snoc [OF assms(3), of True "[]" "path_elems dir"] path_elems_append [OF assms(2), of dir] by simp
  have "\<forall>x \<in> set (clean_elems True [] (path_elems ?p)). CHR ''/'' \<notin> set x" using Clean_abs(2) [OF abs(1)] by blast
  then have "path_elems (join_elems (clean_elems True [] (path_elems ?p))) = clean_elems True [] (path_elems ?p)"
    using e by (intro join_elems_path) auto
  then show ?thesis using abs Clean_abs(1) [OF abs(1)] e by (simp add: Join_def)
qed

lemma resolve_absolute: "IsAbs p \<Longrightarrow> resolve_socket getenv p = Inr p"
  by (auto simp: resolve_socket_def IsAbs_def Let_def)

lemma resolve_unset:
  "getenv ''XDG_RUNTIME_DIR'' = [] \<Longrightarrow> \<not> IsAbs p \<Longrightarrow> \<not> IsAbs (getenv ''WAYLAND_DISPLAY'') \<Longrightarrow>
   resolve_socket getenv p = Inl (Errorf ''XDG_RUNTIME_DIR not set'')"
  by (auto simp: resolve_socket_def Let_def IsAbs_def)

section \<open>Properties\<close>

text \<open>The socket name: the argument, else the variable, else the default.\<close>

definition socket_name :: "(string \<Rightarrow> string) \<Rightarrow> string \<Rightarrow> string" where
  "socket_name getenv p =
     (if p \<noteq> [] then p else if getenv ''WAYLAND_DISPLAY'' \<noteq> [] then getenv ''WAYLAND_DISPLAY'' else ''wayland-0'')"

lemma resolve_name:
  "resolve_socket getenv p =
     (if IsAbs (socket_name getenv p) then Inr (socket_name getenv p)
      else if getenv ''XDG_RUNTIME_DIR'' = [] then Inl (Errorf ''XDG_RUNTIME_DIR not set'')
      else Inr (Join (getenv ''XDG_RUNTIME_DIR'') (socket_name getenv p)))"
  by (simp add: resolve_socket_def socket_name_def Let_def)

text \<open>
  \<^verbatim>\<open>Connect\<close> dials an absolute socket name as it is. A name without a slash is looked up in
  \<^verbatim>\<open>XDG_RUNTIME_DIR\<close>: the path dialled is absolute, and its elements are those of the
  cleaned directory followed by the name. Without the variable nothing is dialled and no
  display is made.
\<close>

lemma Connect_socket:
  assumes "IsAbs dir \<or> dir = []" "getenv ''XDG_RUNTIME_DIR'' = dir" "name = socket_name getenv p"
    and "name \<notin> {''.'', ''..''}" "IsAbs name \<or> CHR ''/'' \<notin> set name"
  shows "if \<not> IsAbs name \<and> dir = []
     then Connect getenv dial p ref heap brk = (Some (Errorf ''XDG_RUNTIME_DIR not set''), None)
     else \<exists>path. IsAbs path \<and> resolve_socket getenv p = Inr path \<and>
       (if IsAbs name then path = name
        else path_elems path = [] # clean_elems True [] (path_elems dir) @ [name])"
proof -
  have nonempty: "name \<noteq> []" using assms(3) by (auto simp: socket_name_def)
  have abs: "IsAbs q" if "path_elems q = [] # x # xs" for q x xs
    using that by (cases q) (auto simp: IsAbs_def split: if_splits list.splits)
  show ?thesis
  proof (cases "IsAbs name \<or> dir = []")
    case False
    then have "path_elems (Join dir name) = [] # clean_elems True [] (path_elems dir) @ [name]"
      using assms nonempty by (intro Join_name) auto
    then show ?thesis
      using False assms(2,3) abs [of "Join dir name"]
      by (cases "clean_elems True [] (path_elems dir)") (auto simp: resolve_name)
  qed (use assms(2,3) in \<open>auto simp: resolve_name Connect_def\<close>)
qed

definition sample_env :: "string \<Rightarrow> string" where
  "sample_env v = (if v = ''XDG_RUNTIME_DIR'' then ''/run/./user//1000/'' else [])"

lemma Connect_socket_sample:
  "resolve_socket sample_env [] = Inr ''/run/user/1000/wayland-0'' \<and>
   (\<exists>path. IsAbs path \<and> resolve_socket sample_env [] = Inr path \<and>
      path_elems path = [] # [''run'', ''user'', ''1000''] @ [''wayland-0''])"
proof
  have n: "socket_name sample_env [] = ''wayland-0''" by (simp add: socket_name_def sample_env_def)
  show "resolve_socket sample_env [] = Inr ''/run/user/1000/wayland-0''"
    by (simp add: resolve_name n) (simp add: sample_env_def Join_def Clean_def IsAbs_def)
  show "\<exists>path. IsAbs path \<and> resolve_socket sample_env [] = Inr path \<and>
      path_elems path = [] # [''run'', ''user'', ''1000''] @ [''wayland-0'']"
    using Connect_socket [of "''/run/./user//1000/''" sample_env "''wayland-0''" "[]"]
    by (simp add: n IsAbs_def sample_env_def)
qed

text \<open>
  C33: a \<^verbatim>\<open>Connect\<close> that succeeds starts a session: the display is open, holds exactly its
  own object and the registry, and has written one message, the request for the registry.
  One that fails after the dial has closed the socket.
\<close>

theorem Connect_session:
  assumes "resolve_socket getenv p = Inr path" "dial path = Inr c" "\<not> cn_closed c"
    and "Connect getenv dial p ref heap brk = (err, Some d)"
  shows "if err = None
     then session U d \<and> \<not> d_closed d \<and>
       sent_messages d = sent_messages (newDisplay c True ref heap brk) @
         [(message_bytes \<lparr>f_object = 1, f_opcode = 1, f_body = le32 2\<rparr>, [])] \<and>
       objectAt d i = (if i = 1 then Some DisplayObj else if i = 2 then Some RegistryObj else None)
     else d_closed d \<and> cn_closed (d_conn d)"
proof -
  let ?d0 = "newDisplay c True ref heap brk" and ?m = "message_bytes \<lparr>f_object = 1, f_opcode = 1, f_body = le32 2\<rparr>"
  have enc: "encodeRequest (objID ?d0) 1 1 [GUint32 2] [] = Inr ?m"
    by (simp add: encodeRequest_Inr goval_wire_def HeaderSize_def)
  have conn: "ConnectFromConn c True ref heap brk = (err, d)"
    using assms by (simp add: Connect_def split: prod.splits)
  then have sess: "session U d" using session.connect [of U c True ref heap brk] by simp
  have get: "getRegistry ?d0 = sendmsgWithFDs ?d0 ?m [] None"
    using enc by (simp add: op_defs displayObjectID_def)
  show ?thesis
  proof (cases rule: sendmsg_cases [of ?d0 ?m "[]" None])
    case (sent d1 c')
    then have "err = None" "d = ?d0\<lparr>d_conn := c'\<rparr>" "cn_out c' = cn_out c @ [(?m, [])]"
      using conn get conn_Write_ok by (auto simp: ConnectFromConn_def run_guard_def)
    then show ?thesis using sess by (simp add: sent_messages_def)
  next
    case (broken e d1 c')
    then have "err \<noteq> None" "d = snd (Close (?d0\<lparr>d_conn := snd (conn_Close c')\<rparr>))"
      using conn get by (auto simp: ConnectFromConn_def run_guard_def)
    then show ?thesis by (simp add: Close_def Let_def case_prod_beta closePendingFDs_def conn_Close_def)
  qed (simp_all add: run_guard_def)
qed

theorem Connect_session_witness:
  "\<exists>d. Connect sample_env (\<lambda>path. if path = ''/run/user/1000/wayland-0'' then Inr idle_conn else Inl (SysError 2)) []
      0 (\<lambda>_. BaseProxy 0 None 0) 0 = (None, Some d) \<and>
    sent_messages d = [(message_bytes \<lparr>f_object = 1, f_opcode = 1, f_body = le32 2\<rparr>, [])]"
proof -
  let ?dial = "\<lambda>path. if path = ''/run/user/1000/wayland-0'' then Inr idle_conn else Inl (SysError 2)"
  have r: "resolve_socket sample_env [] = Inr ''/run/user/1000/wayland-0''"
    by (simp add: resolve_name socket_name_def sample_env_def Join_def Clean_def IsAbs_def)
  have "fst (ConnectFromConn idle_conn True 0 (\<lambda>_. BaseProxy 0 None 0) 0) = None"
    by (simp add: ConnectFromConn_def op_defs encodeRequest_def putUint32_def HeaderSize_def sendmsgWithFDs_def
        conn_Write_def idle_conn_def Let_def)
  then have c: "Connect sample_env ?dial [] 0 (\<lambda>_. BaseProxy 0 None 0) 0 = (None, Some connected)"
    by (simp add: Connect_def r connected_def case_prod_beta)
  show ?thesis
    using Connect_session [OF r _ _ c, of idle_conn linux_unix] c by (simp add: sent_messages_def idle_conn_def)
qed

end
