(* ===== verification/ErrorText.thy ===== *)
theory ErrorText
  imports Wire
begin

text \<open>
  The texts of the transport's errors: the \<^verbatim>\<open>Error\<close> methods of \<^verbatim>\<open>ProtocolError\<close> and
  \<^verbatim>\<open>DisplayError\<close> in \<^verbatim>\<open>wire.go\<close>, the sentinels' texts, and what \<^verbatim>\<open>fmt.Errorf\<close> makes of a
  wrapped error. The text of a system-call error is the operating system's, the
  parameter \<open>errno\<close>. The lemmas show which part of an error its text determines.
\<close>

section \<open>The Error methods\<close>

text \<open>\<open>cause\<close> is the text of the wrapped error, \<open>None\<close> a nil \<^verbatim>\<open>Err\<close>.\<close>

definition ProtocolError_Error :: "string \<Rightarrow> u32 \<Rightarrow> u16 \<Rightarrow> u32 \<Rightarrow> string option \<Rightarrow> string" where
  "ProtocolError_Error kind object opcode sz cause =
     (let msg1 = (if object \<noteq> 0 then kind @ '' object='' @ digits (unat object) else kind);
          msg2 = (if kind = ''unknown_opcode'' \<or> kind = ''display_error''
                  then msg1 @ '' opcode='' @ digits (unat opcode) else msg1);
          msg = (if sz \<noteq> 0 then msg2 @ '' size='' @ digits (unat sz) else msg2)
      in case cause of
           Some t \<Rightarrow> ''wlturbo: '' @ msg @ '': '' @ t
         | None \<Rightarrow> ''wlturbo: '' @ msg)"

definition DisplayError_Error :: "string \<Rightarrow> u32 \<Rightarrow> u32 \<Rightarrow> string \<Rightarrow> string" where
  "DisplayError_Error sentinel objectID code message =
     (if message = [] then
        ''wlturbo: '' @ sentinel @ '': object='' @ digits (unat objectID) @ '' code='' @ digits (unat code)
      else
        ''wlturbo: '' @ sentinel @ '': object='' @ digits (unat objectID) @ '' code='' @ digits (unat code) @
          '': '' @ message)"

text \<open>The texts the sentinels are made with, those of the standard library included.\<close>

primrec Error :: "(nat \<Rightarrow> string) \<Rightarrow> error \<Rightarrow> string" where
  "Error errno ErrMalformedFrame = ''malformed wayland frame''"
| "Error errno ErrUnknownObject = ''wayland event for unknown object''"
| "Error errno ErrUnknownOpcode = ''wayland event with unknown opcode''"
| "Error errno ErrDisplayError = ''wayland display error''"
| "Error errno ErrVersionTooLow = ''wlturbo: request needs a newer object version''"
| "Error errno ErrGlobalNotFound = ''wlturbo: global not announced''"
| "Error errno NetErrClosed = ''use of closed network connection''"
| "Error errno IoEOF = ''EOF''"
| "Error errno IoErrUnexpectedEOF = ''unexpected EOF''"
| "Error errno IoErrShortWrite = ''short write''"
| "Error errno OsErrDeadlineExceeded = ''i/o timeout''"
| "Error errno (SysError n) = errno n"
| "Error errno (Errorf t) = t"
| "Error errno (Wrap pre e post) = pre @ Error errno e @ post"
| "Error errno (ProtocolError kind object opcode sz cause) =
     ProtocolError_Error kind object opcode sz (Some (Error errno cause))"
| "Error errno (DisplayError object code message) =
     DisplayError_Error ''wayland display error'' object code message"

section \<open>What a text determines\<close>

lemma no_digit [simp]: "\<not> is_digit (CHR '' '')" "\<not> is_digit (CHR '':'')"
  by (simp_all add: is_digit_def)

lemma ProtocolError_Error_cause:
  "ProtocolError_Error kind ob oc sz (Some t) = ProtocolError_Error kind ob oc sz None @ '': '' @ t"
  by (simp add: ProtocolError_Error_def Let_def)

lemma wrapped_text: "Unwrap e = Some e' \<Longrightarrow> \<exists>pre post. Error errno e = pre @ Error errno e' @ post"
proof (cases e)
  case (ProtocolError kind object opcode sz cause)
  moreover assume "Unwrap e = Some e'"
  ultimately have "Error errno e = (ProtocolError_Error kind object opcode sz None @ '': '') @ Error errno e' @ []"
    by (simp add: ProtocolError_Error_cause)
  then show ?thesis by blast
next
  case (DisplayError object code message)
  moreover assume "Unwrap e = Some e'"
  ultimately have "Error errno e = ''wlturbo: '' @ Error errno e' @ drop (length (''wlturbo: '' @ Error errno e')) (Error errno e)"
    by (simp add: DisplayError_Error_def)
  then show ?thesis by blast
qed auto

lemma DisplayError_Error_inject:
  assumes "DisplayError_Error s ob c t = DisplayError_Error s ob' c' t'"
  shows "ob = ob' \<and> c = c' \<and> t = t'"
proof -
  let ?tail = "\<lambda>c t. if t = [] then digits (unat c) else digits (unat c) @ CHR '':'' # CHR '' '' # (t :: string)"
  have eq: "digits (unat ob) @ CHR '' '' # ''code='' @ ?tail c t = digits (unat ob') @ CHR '' '' # ''code='' @ ?tail c' t'"
    using assms by (auto simp: DisplayError_Error_def split: if_splits)
  have "unat ob = unat ob'" and tl: "?tail c t = ?tail c' t'"
    using digits_append_inject [OF eq] by auto
  have "c = c' \<and> t = t'"
  proof (cases "t = []"; cases "t' = []")
    assume "t = []" "t' \<noteq> []"
    then show ?thesis using tl digits_no_tail [of "unat c" "unat c'" "CHR '':''"] by auto
  next
    assume "t \<noteq> []" "t' = []"
    then show ?thesis using tl [symmetric] digits_no_tail [of "unat c'" "unat c" "CHR '':''"] by auto
  next
    assume "t \<noteq> []" "t' \<noteq> []"
    then show ?thesis
      using tl digits_append_inject [of "unat c" "CHR '':''" "CHR '' '' # t" "unat c'" "CHR '' '' # t'"] by (auto simp: word_unat_eq_iff)
  qed (use tl in \<open>simp add: word_unat_eq_iff\<close>)
  then show ?thesis using \<open>unat ob = unat ob'\<close> by (simp add: word_unat_eq_iff)
qed

text \<open>\<^verbatim>\<open>errors.Is\<close> shows in the text: an error's text contains that of every error it is.\<close>

lemma errors_Is_text: "errors_Is e t \<Longrightarrow> \<exists>pre post. Error errno e = pre @ Error errno t @ post"
proof (induction e)
  case (Wrap pre e post)
  show ?case
  proof (cases "Wrap pre e post = t")
    case False
    then obtain a b where "Error errno e = a @ Error errno t @ b" using Wrap by auto
    then have "Error errno (Wrap pre e post) = (pre @ a) @ Error errno t @ (b @ post)" by simp
    then show ?thesis by blast
  qed (metis append.right_neutral append_Nil)
next
  case (ProtocolError kind ob oc sz e)
  show ?case
  proof (cases "ProtocolError kind ob oc sz e = t")
    case False
    then obtain a b where "Error errno e = a @ Error errno t @ b" using ProtocolError by auto
    then have "Error errno (ProtocolError kind ob oc sz e) =
        (ProtocolError_Error kind ob oc sz None @ '': '' @ a) @ Error errno t @ b"
      by (simp add: ProtocolError_Error_cause)
    then show ?thesis by blast
  qed (metis append.right_neutral append_Nil)
next
  case (DisplayError ob c m)
  show ?case
  proof (cases "DisplayError ob c m = t")
    case False
    then show ?thesis using DisplayError wrapped_text [of "DisplayError ob c m" t errno] by auto
  qed (metis append.right_neutral append_Nil)
qed (auto intro: exI [of _ "[]"])

text \<open>
  The text a user sees for the compositor's error tells which error it was. Two
  display errors with the same text have the same object, code and message; and the text
  of any error contains the text of every sentinel that \<^verbatim>\<open>errors.Is\<close> finds in it.
\<close>

lemma error_text_faithful:
  "(Error errno (DisplayError ob c t) = Error errno (DisplayError ob' c' t') \<longleftrightarrow> ob = ob' \<and> c = c' \<and> t = t') \<and>
   (if errors_Is e s then \<exists>pre post. Error errno e = pre @ Error errno s @ post else True)"
  using DisplayError_Error_inject [of "''wayland display error''" ob c t ob' c' t'] errors_Is_text [of e s errno] by auto

end
