(* ===== verification/Shm.thy ===== *)
theory Shm
  imports Wire
begin

text \<open>
  Shared-memory pools: \<^verbatim>\<open>shm.go\<close> and the memory helpers of \<^verbatim>\<open>scm_linux.go\<close>. A Go
  \<^verbatim>\<open>int\<close> has 64 bits; it is an \<open>int\<close> here, and every arithmetic result goes through
  \<open>wrap64\<close>. The system calls are a parameter: the scripted results of one run of
  \<^verbatim>\<open>CreateAnonymousFile\<close> and \<^verbatim>\<open>Mmap\<close>, with a log of the descriptors opened and closed.

  The lemmas show that no failing path leaks a descriptor, that the buffers of a
  pool are disjoint, 64-byte aligned and inside the pool as long as the sizes are
  non-negative and do not overflow, and that \<^verbatim>\<open>AllocateBuffer\<close> does not check that.
\<close>

section \<open>64-bit arithmetic\<close>

definition wrap64 :: "int \<Rightarrow> int" where
  "wrap64 n = (n + 2 ^ 63) mod 2 ^ 64 - 2 ^ 63"

definition int64_range :: "int \<Rightarrow> bool" where
  "int64_range n \<longleftrightarrow> - (2 ^ 63) \<le> n \<and> n < 2 ^ 63"

text \<open>Go's \<^verbatim>\<open>%\<close> takes the sign of the dividend.\<close>

definition go_rem :: "int \<Rightarrow> int \<Rightarrow> int" where
  "go_rem a b = (if a < 0 then - ((- a) mod b) else a mod b)"

lemma wrap64_id [simp]: "int64_range n \<Longrightarrow> wrap64 n = n"
  by (simp add: wrap64_def int64_range_def)

lemma wrap64_range: "int64_range (wrap64 n)"
  by (simp add: wrap64_def int64_range_def)

section \<open>The pool\<close>

text \<open>\<open>Some n\<close> in \<open>sp_data\<close> is a mapping of \<open>n\<close> bytes, \<open>None\<close> is a nil slice.\<close>

record ShmPool =
  sp_fd :: int
  sp_size :: int
  sp_data :: "nat option"
  sp_offset :: int

record ShmBuffer =
  sb_offset :: int
  sb_width :: int
  sb_height :: int
  sb_stride :: int
  sb_format :: u32

definition AllocateBuffer :: "ShmPool \<Rightarrow> int \<Rightarrow> int \<Rightarrow> int \<Rightarrow> u32 \<Rightarrow> ShmBuffer result \<times> ShmPool" where
  "AllocateBuffer p width height stride format =
     (let sz = wrap64 (height * stride)
      in if wrap64 (sp_offset p + sz) > sp_size p
         then (Inl (Errorf (''insufficient space in pool: need '' @ fmt_d sz @ '', have '' @
                     fmt_d (wrap64 (sp_size p - sp_offset p)))), p)
         else
           let buffer = \<lparr>sb_offset = sp_offset p, sb_width = width, sb_height = height, sb_stride = stride,
                         sb_format = format\<rparr>;
               off = wrap64 (sp_offset p + sz);
               padding = go_rem (wrap64 (64 - go_rem off 64)) 64
           in (Inr buffer, p\<lparr>sp_offset := wrap64 (off + padding)\<rparr>))"

text \<open>
  The slice expression of \<^verbatim>\<open>ShmBuffer.Data\<close>: the range of the pool's memory the
  slice covers, \<open>None\<close> where Go panics. A nil slice has capacity 0.
\<close>

definition ShmBuffer_Data :: "ShmPool \<Rightarrow> ShmBuffer \<Rightarrow> (int \<times> int) option" where
  "ShmBuffer_Data p b =
     (let sz = wrap64 (sb_height b * sb_stride b);
          hi = wrap64 (sb_offset b + sz);
          cap = (case sp_data p of Some n \<Rightarrow> int n | None \<Rightarrow> 0)
      in if 0 \<le> sb_offset b \<and> sb_offset b \<le> hi \<and> hi \<le> cap then Some (sb_offset b, hi) else None)"

abbreviation (input) ShmPool_Data :: "ShmPool \<Rightarrow> nat option" where
  "ShmPool_Data p \<equiv> sp_data p"

abbreviation (input) ShmPool_FD :: "ShmPool \<Rightarrow> int" where
  "ShmPool_FD p \<equiv> sp_fd p"

abbreviation (input) ShmPool_Size :: "ShmPool \<Rightarrow> int" where
  "ShmPool_Size p \<equiv> sp_size p"

abbreviation (input) ShmBuffer_Offset :: "ShmBuffer \<Rightarrow> int" where
  "ShmBuffer_Offset b \<equiv> sb_offset b"

section \<open>Pixel formats\<close>

definition FormatARGB8888 :: u32 where "FormatARGB8888 = 0"
definition FormatXRGB8888 :: u32 where "FormatXRGB8888 = 1"
definition FormatRGB888 :: u32 where "FormatRGB888 = 0x34324752"
definition FormatBGR888 :: u32 where "FormatBGR888 = 0x34324742"
definition FormatRGB565 :: u32 where "FormatRGB565 = 0x36314752"
definition FormatXRGB1555 :: u32 where "FormatXRGB1555 = 0x35315258"
definition FormatY8 :: u32 where "FormatY8 = 0x20203859"

text \<open>Apart from the first two, a format is the little-endian word of its four-character code.\<close>

definition fourcc :: "string \<Rightarrow> u32" where
  "fourcc s = u32le (string_bytes s)"

lemma pixel_formats:
  "FormatRGB888 = fourcc ''RG24''" "FormatBGR888 = fourcc ''BG24''" "FormatRGB565 = fourcc ''RG16''"
  "FormatXRGB1555 = fourcc ''XR15''" "FormatY8 = fourcc ''Y8  ''"
  by (simp_all add: FormatRGB888_def FormatBGR888_def FormatRGB565_def FormatXRGB1555_def FormatY8_def
      fourcc_def string_bytes_def byte_of_char_def)

section \<open>System calls\<close>

text \<open>
  The results the kernel will give: of \<^verbatim>\<open>memfd_create\<close>, the two \<^verbatim>\<open>open\<close>s, \<^verbatim>\<open>ftruncate\<close>,
  the seals, \<^verbatim>\<open>mmap\<close>, \<^verbatim>\<open>munmap\<close> and \<^verbatim>\<open>close\<close>; and the descriptors this code opened
  and closed.
\<close>

record kernel =
  k_memfd :: "fd result"
  k_tmpfile :: "fd result"
  k_open :: "fd result"
  k_ftruncate :: "fd \<Rightarrow> int \<Rightarrow> error option"
  k_seals :: "fd \<Rightarrow> error option"
  k_mmap :: "fd \<Rightarrow> int \<Rightarrow> nat result"
  k_munmap :: "error option"
  k_close :: "fd \<Rightarrow> error option"

record fdlog =
  opened :: "fd list"
  closed_fds :: "fd list"

definition log_open :: "fd \<Rightarrow> fdlog \<Rightarrow> fdlog" where
  "log_open n l = l\<lparr>opened := opened l @ [n]\<rparr>"

definition log_close :: "fd \<Rightarrow> fdlog \<Rightarrow> fdlog" where
  "log_close n l = l\<lparr>closed_fds := closed_fds l @ [n]\<rparr>"

definition CreateAnonymousFile :: "kernel \<Rightarrow> int \<Rightarrow> fdlog \<Rightarrow> fd result \<times> fdlog" where
  "CreateAnonymousFile K sz l =
     (case k_memfd K of
        Inr n \<Rightarrow>
          let l1 = log_open n l
          in (case k_ftruncate K n sz of
                Some err \<Rightarrow> (Inl err, log_close n l1)
              | None \<Rightarrow> (case k_seals K n of
                           Some err \<Rightarrow> (Inl err, log_close n l1)
                         | None \<Rightarrow> (Inr n, l1)))
      | Inl _ \<Rightarrow>
          (case k_tmpfile K of
             Inr n \<Rightarrow>
               let l1 = log_open n l
               in (case k_ftruncate K n sz of
                     Some err \<Rightarrow> (Inl err, log_close n l1)
                   | None \<Rightarrow> (Inr n, l1))
           | Inl _ \<Rightarrow>
               (case k_open K of
                  Inl err \<Rightarrow> (Inl err, l)
                | Inr n \<Rightarrow>
                    let l1 = log_open n l
                    in (case k_ftruncate K n sz of
                          Some err \<Rightarrow> (Inl err, log_close n l1)
                        | None \<Rightarrow> (Inr n, l1)))))"

definition MapMemory :: "kernel \<Rightarrow> fd \<Rightarrow> int \<Rightarrow> nat result" where
  "MapMemory K n sz = k_mmap K n sz"

definition UnmapMemory :: "kernel \<Rightarrow> nat \<Rightarrow> error option" where
  "UnmapMemory K data = k_munmap K"

definition CreateShmPool :: "kernel \<Rightarrow> int \<Rightarrow> fdlog \<Rightarrow> ShmPool result \<times> fdlog" where
  "CreateShmPool K sz l =
     (case CreateAnonymousFile K sz l of
        (Inl err, l1) \<Rightarrow> (Inl (Wrap ''failed to create anonymous file: '' err []), l1)
      | (Inr n, l1) \<Rightarrow>
          (case MapMemory K n sz of
             Inl err \<Rightarrow> (Inl (Wrap ''failed to map memory: '' err []), log_close n l1)
           | Inr data \<Rightarrow> (Inr \<lparr>sp_fd = n, sp_size = sz, sp_data = Some data, sp_offset = 0\<rparr>, l1)))"

definition ShmPool_Close :: "kernel \<Rightarrow> ShmPool \<Rightarrow> fdlog \<Rightarrow> error option \<times> ShmPool \<times> fdlog" where
  "ShmPool_Close K p l =
     (case (case sp_data p of None \<Rightarrow> None | Some data \<Rightarrow> UnmapMemory K data) of
        Some err \<Rightarrow> (Some err, p, l)
      | None \<Rightarrow>
          let p1 = p\<lparr>sp_data := None\<rparr>
          in if sp_fd p1 \<ge> 0 then
               (case k_close K (sp_fd p1) of
                  Some err \<Rightarrow> (Some err, p1, log_close (sp_fd p1) l)
                | None \<Rightarrow> (None, p1\<lparr>sp_fd := -1\<rparr>, log_close (sp_fd p1) l))
             else (None, p1, l))"

section \<open>No descriptor is leaked\<close>

definition open_now :: "fdlog \<Rightarrow> fd multiset" where
  "open_now l = mset (opened l) - mset (closed_fds l)"

definition balanced :: "fdlog \<Rightarrow> bool" where
  "balanced l \<longleftrightarrow> mset (closed_fds l) \<subseteq># mset (opened l)"

lemma log_open_close [simp]:
  "opened (log_open n l) = opened l @ [n]" "closed_fds (log_open n l) = closed_fds l"
  "opened (log_close n l) = opened l" "closed_fds (log_close n l) = closed_fds l @ [n]"
  by (simp_all add: log_open_def log_close_def)

lemma open_now_log:
  assumes "balanced l"
  shows "open_now (log_open n l) = add_mset n (open_now l)"
    and "open_now (log_close n (log_open n l)) = open_now l" "balanced (log_open n l)"
  using assms
  by (auto simp: open_now_def balanced_def multiset_eq_iff subseteq_mset_def Suc_diff_le le_SucI)

lemma CreateAnonymousFile_fds:
  assumes "balanced l"
  shows "open_now (snd (CreateAnonymousFile K sz l)) =
    (case fst (CreateAnonymousFile K sz l) of Inl _ \<Rightarrow> open_now l | Inr n \<Rightarrow> add_mset n (open_now l))"
  using open_now_log [OF assms]
  by (simp add: CreateAnonymousFile_def Let_def split: sum.splits option.splits)

lemma CreateAnonymousFile_balanced: "balanced l \<Longrightarrow> balanced (snd (CreateAnonymousFile K sz l))"
  using open_now_log(3)
  by (auto simp: CreateAnonymousFile_def Let_def balanced_def split: sum.splits option.splits)

lemma CreateShmPool_fds:
  assumes "balanced l"
  shows "open_now (snd (CreateShmPool K sz l)) =
    (case fst (CreateShmPool K sz l) of Inl _ \<Rightarrow> open_now l | Inr p \<Rightarrow> add_mset (sp_fd p) (open_now l))"
proof -
  obtain r l1 where c: "CreateAnonymousFile K sz l = (r, l1)" by (cases "CreateAnonymousFile K sz l")
  note b = CreateAnonymousFile_fds [OF assms, of K sz, unfolded c, simplified]
  have "open_now (log_close n l1) = open_now l" if "open_now l1 = add_mset n (open_now l)" for n
    using that by (simp add: open_now_def) (metis add_mset_add_single add_mset_remove_trivial diff_diff_add_mset)
  then show ?thesis using b by (auto simp: CreateShmPool_def c split: sum.splits)
qed

text \<open>A \<^verbatim>\<open>Close\<close> that returns nil has unmapped the memory and closed the descriptor; a second does nothing.\<close>

lemma ShmPool_Close_ok:
  assumes "ShmPool_Close K p l = (None, p', l')"
  shows "sp_data p' = None" "sp_fd p' < 0"
    and "closed_fds l' = closed_fds l @ (if 0 \<le> sp_fd p then [sp_fd p] else [])"
    and "ShmPool_Close K p' l' = (None, p', l')"
  using assms by (auto simp: ShmPool_Close_def Let_def log_close_def split: option.splits if_splits)

section \<open>Buffers of a pool\<close>

text \<open>
  The bump pointer is aligned and at most 63 bytes behind the pool; sizes below
  2^61 keep the arithmetic away from the 64-bit limits.
\<close>

definition pool_ok :: "ShmPool \<Rightarrow> bool" where
  "pool_ok p \<longleftrightarrow> 0 \<le> sp_offset p \<and> sp_offset p mod 64 = 0 \<and> 0 \<le> sp_size p \<and> sp_size p \<le> 2 ^ 61 \<and>
     sp_offset p \<le> sp_size p + 63"

definition size_ok :: "int \<Rightarrow> int \<Rightarrow> bool" where
  "size_ok height stride \<longleftrightarrow> 0 \<le> height * stride \<and> height * stride \<le> 2 ^ 61"

definition extent :: "ShmBuffer \<Rightarrow> int set" where
  "extent b = {sb_offset b ..< sb_offset b + sb_height b * sb_stride b}"

definition align64 :: "int \<Rightarrow> int" where
  "align64 n = n + (64 - n mod 64) mod 64"

lemma align64: "n \<le> align64 n" "align64 n < n + 64" "align64 n mod 64 = 0"
proof -
  have "(n + (64 - n mod 64)) mod 64 = (n - n mod 64 + 64) mod 64" by (simp add: algebra_simps)
  also have "\<dots> = 0" by (simp add: minus_mod_eq_mult_div)
  finally show "align64 n mod 64 = 0" by (simp add: align64_def mod_add_right_eq)
qed (simp_all add: align64_def)

text \<open>
  The size counts as wrapped to 64 bits; a wrapped size that does not move the pointer below the
  start of the pool is taken as it is, also a negative one.
\<close>

lemma AllocateBuffer_wrapped:
  assumes "pool_ok p" "wrap64 (height * stride) = n" "- sp_offset p \<le> n" "n \<le> 2 ^ 61"
  shows "AllocateBuffer p width height stride format =
    (if sp_offset p + n > sp_size p
     then (Inl (Errorf (''insufficient space in pool: need '' @ fmt_d n @ '', have '' @
                 fmt_d (sp_size p - sp_offset p))), p)
     else (Inr \<lparr>sb_offset = sp_offset p, sb_width = width, sb_height = height, sb_stride = stride,
                sb_format = format\<rparr>,
           p\<lparr>sp_offset := align64 (sp_offset p + n)\<rparr>))"
proof -
  let ?n = "sp_offset p + n"
  have r: "int64_range ?n" "0 \<le> ?n" "?n \<le> 2 ^ 62 + 63" "int64_range (sp_size p - sp_offset p)"
    using assms by (auto simp: pool_ok_def int64_range_def)
  have m: "0 \<le> ?n mod 64" "?n mod 64 < 64" by simp_all
  have "int64_range (64 - x)" if "0 \<le> x" "x < 64" for x using that by (simp add: int64_range_def)
  then have p: "int64_range (64 - ?n mod 64)" using m by blast
  have q: "go_rem ?n 64 = ?n mod 64" "go_rem (64 - ?n mod 64) 64 = (64 - ?n mod 64) mod 64"
    using r(2) m by (simp_all add: go_rem_def)
  have "int64_range (align64 ?n)"
    using align64 [of ?n] r(2,3) by (simp add: int64_range_def)
  then show ?thesis
    using r p q assms(2) by (simp add: AllocateBuffer_def Let_def align64_def)
qed

lemma AllocateBuffer_ok:
  assumes "pool_ok p" "size_ok height stride"
  shows "AllocateBuffer p width height stride format =
    (if sp_offset p + height * stride > sp_size p
     then (Inl (Errorf (''insufficient space in pool: need '' @ fmt_d (height * stride) @ '', have '' @
                 fmt_d (sp_size p - sp_offset p))), p)
     else (Inr \<lparr>sb_offset = sp_offset p, sb_width = width, sb_height = height, sb_stride = stride,
                sb_format = format\<rparr>,
           p\<lparr>sp_offset := align64 (sp_offset p + height * stride)\<rparr>))"
  by (rule AllocateBuffer_wrapped) (use assms in \<open>auto simp: size_ok_def pool_ok_def int64_range_def\<close>)

lemma AllocateBuffer_pool_ok:
  assumes "pool_ok p" "size_ok height stride"
  shows "pool_ok (snd (AllocateBuffer p width height stride format))"
  using assms align64 [of "sp_offset p + height * stride"]
  by (auto simp: AllocateBuffer_ok) (auto simp: pool_ok_def size_ok_def)

text \<open>A sequence of allocations, with the buffers of those that succeed.\<close>

fun allocate_all :: "ShmPool \<Rightarrow> (int \<times> int \<times> int \<times> u32) list \<Rightarrow> ShmBuffer list \<times> ShmPool" where
  "allocate_all p [] = ([], p)"
| "allocate_all p ((w, h, s, f) # rs) =
     (case AllocateBuffer p w h s f of
        (Inl _, p1) \<Rightarrow> allocate_all p1 rs
      | (Inr b, p1) \<Rightarrow> let (bs, p2) = allocate_all p1 rs in (b # bs, p2))"

lemma allocate_all_ok:
  assumes "pool_ok p" "\<forall>(w, h, s, f) \<in> set rs. size_ok h s" "allocate_all p rs = (bs, p')"
  shows "sp_size p' = sp_size p \<and> sp_data p' = sp_data p \<and> pool_ok p' \<and>
    (\<forall>b \<in> set bs. sp_offset p \<le> sb_offset b \<and> sb_offset b mod 64 = 0 \<and> size_ok (sb_height b) (sb_stride b) \<and>
       sb_offset b + sb_height b * sb_stride b \<le> sp_size p) \<and>
    sorted_wrt (\<lambda>b c. sb_offset b + sb_height b * sb_stride b \<le> sb_offset c) bs"
  using assms
proof (induction rs arbitrary: p bs)
  case (Cons r rs)
  obtain w h s f where r: "r = (w, h, s, f)" by (cases r) auto
  have ok: "size_ok h s" and oks: "\<forall>(w, h, s, f) \<in> set rs. size_ok h s" using Cons.prems(2) r by auto
  note ab = AllocateBuffer_ok [OF Cons.prems(1) ok, of w f]
  show ?case
  proof (cases "sp_offset p + h * s > sp_size p")
    case True
    then show ?thesis using Cons.IH [OF Cons.prems(1) oks] Cons.prems(3) r ab by simp
  next
    case False
    let ?p1 = "p\<lparr>sp_offset := align64 (sp_offset p + h * s)\<rparr>"
    let ?b = "\<lparr>sb_offset = sp_offset p, sb_width = w, sb_height = h, sb_stride = s, sb_format = f\<rparr>"
    obtain cs where cs: "allocate_all ?p1 rs = (cs, p')" "bs = ?b # cs"
      using Cons.prems(3) r ab False by (cases "allocate_all ?p1 rs") auto
    have p1: "pool_ok ?p1" using AllocateBuffer_pool_ok [OF Cons.prems(1) ok, of w f] ab False by simp
    note ih = Cons.IH [OF p1 oks cs(1)]
    note a = align64(1) [of "sp_offset p + h * s"]
    have hs: "0 \<le> h * s" using ok by (simp add: size_ok_def)
    show ?thesis
      using ih a hs cs(2) Cons.prems(1) ok False by (auto simp: pool_ok_def)
  qed
qed auto

section \<open>Properties\<close>

text \<open>
  C34: the buffers that a sequence of allocations takes from a pool lie inside the
  pool, start at multiples of 64 and do not overlap, and the slice of each of them
  can be taken, as long as no size is negative or above 2^61.
\<close>

theorem buffers_disjoint:
  assumes "pool_ok p" "\<forall>(w, h, s, f) \<in> set rs. size_ok h s" "allocate_all p rs = (bs, p')"
    and "sp_data p = Some (nat (sp_size p))"
  shows "(\<forall>b \<in> set bs. sb_offset b mod 64 = 0 \<and> extent b \<subseteq> {0 ..< sp_size p} \<and>
      ShmBuffer_Data p' b = Some (sb_offset b, sb_offset b + sb_height b * sb_stride b)) \<and>
    (\<forall>i j. i < j \<and> j < length bs \<longrightarrow> extent (bs ! i) \<inter> extent (bs ! j) = {})"
proof -
  note ok = allocate_all_ok [OF assms(1-3)]
  have p: "0 \<le> sp_offset p" "0 \<le> sp_size p" "sp_size p \<le> 2 ^ 61" using assms(1) by (auto simp: pool_ok_def)
  have in_pool: "sb_offset b mod 64 = 0 \<and> extent b \<subseteq> {0 ..< sp_size p} \<and>
      ShmBuffer_Data p' b = Some (sb_offset b, sb_offset b + sb_height b * sb_stride b)" if "b \<in> set bs" for b
  proof -
    have b: "0 \<le> sb_offset b" "sb_offset b mod 64 = 0" "size_ok (sb_height b) (sb_stride b)"
        "sb_offset b + sb_height b * sb_stride b \<le> sp_size p"
      using ok that p(1) by force+
    have w: "int64_range (sb_height b * sb_stride b)" "int64_range (sb_offset b + sb_height b * sb_stride b)"
      using b p by (auto simp: int64_range_def size_ok_def)
    have "sp_data p' = Some (nat (sp_size p))" using ok assms(4) by simp
    then show ?thesis using b w p by (auto simp: extent_def ShmBuffer_Data_def size_ok_def)
  qed
  have "sb_offset (bs ! i) + sb_height (bs ! i) * sb_stride (bs ! i) \<le> sb_offset (bs ! j)"
    if "i < j" "j < length bs" for i j
    using ok that by (simp add: sorted_wrt_iff_nth_less)
  then have "extent (bs ! i) \<inter> extent (bs ! j) = {}" if "i < j" "j < length bs" for i j
    using that by (fastforce simp: extent_def)
  then show ?thesis using in_pool by blast
qed

definition sample_pool :: ShmPool where
  "sample_pool = \<lparr>sp_fd = 5, sp_size = 8192, sp_data = Some 8192, sp_offset = 0\<rparr>"

theorem buffers_disjoint_witness:
  "extent (fst (allocate_all sample_pool [(10, 10, 40, 0), (64, 64, 64, 1)]) ! 0) \<inter>
   extent (fst (allocate_all sample_pool [(10, 10, 40, 0), (64, 64, 64, 1)]) ! 1) = {}"
proof -
  have "length (fst (allocate_all sample_pool [(10, 10, 40, 0), (64, 64, 64, 1)])) = 2" by code_simp
  then show ?thesis
    using buffers_disjoint [of sample_pool "[(10, 10, 40, 0), (64, 64, 64, 1)]"
      "fst (allocate_all sample_pool [(10, 10, 40, 0), (64, 64, 64, 1)])"
      "snd (allocate_all sample_pool [(10, 10, 40, 0), (64, 64, 64, 1)])"]
    by (simp add: sample_pool_def pool_ok_def size_ok_def)
qed

text \<open>
  C39: \<^verbatim>\<open>AllocateBuffer\<close> checks neither the sign of a size nor its overflow. In every pool,
  after any buffer whose size is a multiple of 64, a request with the negated height is accepted and moves
  the pointer back, so that the next buffer of the first size gets the very bytes of the first one. And a
  request whose size exceeds 64 bits is accepted when the wrapped size fits; the next
  buffer then starts inside the bytes that the height and the stride of this one describe.
\<close>

theorem AllocateBuffer_unchecked_size:
  assumes "pool_ok p" "0 < h * s" "h * s mod 64 = 0" "sp_offset p + h * s \<le> sp_size p"
    and "2 ^ 63 \<le> h' * s'" "0 \<le> wrap64 (h' * s')" "sp_offset p + wrap64 (h' * s') \<le> sp_size p"
  shows "(\<exists>b1 b2 b3 p'. allocate_all p [(w, h, s, f), (w, - h, s, f), (w, h, s, f)] = ([b1, b2, b3], p') \<and>
      extent b1 \<noteq> {} \<and> extent b3 = extent b1) \<and>
    (\<exists>b p'. AllocateBuffer p w h' s' f = (Inr b, p') \<and> sp_offset p' \<in> extent b)"
proof
  let ?o = "sp_offset p" and ?n = "h * s" and ?m = "wrap64 (h' * s')"
  let ?b = "\<lambda>h s. \<lparr>sb_offset = ?o, sb_width = w, sb_height = h, sb_stride = s, sb_format = f\<rparr>"
  have sz: "size_ok h s" using assms by (auto simp: pool_ok_def size_ok_def)
  have al: "align64 ?o = ?o" "align64 (?o + ?n) = ?o + ?n"
    using assms(1,3) by (simp_all add: align64_def pool_ok_def mod_add_eq [symmetric])
  let ?p1 = "p\<lparr>sp_offset := ?o + ?n\<rparr>"
  have 1: "AllocateBuffer p w h s f = (Inr (?b h s), ?p1)"
    using AllocateBuffer_ok [OF assms(1) sz, of w f] assms(4) al by simp
  then have p1: "pool_ok ?p1" using AllocateBuffer_pool_ok [OF assms(1) sz, of w f] by simp
  have neg: "wrap64 (- h * s) = - ?n" using sz by (auto simp: size_ok_def int64_range_def)
  have "AllocateBuffer ?p1 w (- h) s f =
      (Inr \<lparr>sb_offset = ?o + ?n, sb_width = w, sb_height = - h, sb_stride = s, sb_format = f\<rparr>, p)"
    using AllocateBuffer_wrapped [OF p1 neg, of w f] assms(1,2,4) al by (auto simp: pool_ok_def)
  with 1 have "allocate_all p [(w, h, s, f), (w, - h, s, f), (w, h, s, f)] = ([?b h s,
      \<lparr>sb_offset = ?o + ?n, sb_width = w, sb_height = - h, sb_stride = s, sb_format = f\<rparr>, ?b h s], ?p1)"
    by simp
  moreover have "extent (?b h s) \<noteq> {}" using assms(2) by (simp add: extent_def)
  ultimately show "\<exists>b1 b2 b3 p'. allocate_all p [(w, h, s, f), (w, - h, s, f), (w, h, s, f)] = ([b1, b2, b3], p') \<and>
      extent b1 \<noteq> {} \<and> extent b3 = extent b1" by blast
  have "?m \<le> 2 ^ 61" "0 \<le> ?o" "sp_size p \<le> 2 ^ 61" using assms(1,7) by (auto simp: pool_ok_def)
  then have "AllocateBuffer p w h' s' f = (Inr (?b h' s'), p\<lparr>sp_offset := align64 (?o + ?m)\<rparr>)"
    using AllocateBuffer_wrapped [OF assms(1) refl, of h' s' w f] assms(6,7) by simp
  moreover have "align64 (?o + ?m) \<in> extent (?b h' s')"
    using align64 [of "?o + ?m"] assms(5-7) \<open>0 \<le> ?o\<close> \<open>sp_size p \<le> 2 ^ 61\<close> by (simp add: extent_def)
  ultimately show "\<exists>b p'. AllocateBuffer p w h' s' f = (Inr b, p') \<and> sp_offset p' \<in> extent b" by auto
qed

theorem AllocateBuffer_unchecked_size_witness:
  "(\<exists>b1 b2 b3 p'. allocate_all sample_pool [(64, 64, 64, 0), (64, - 64, 64, 0), (64, 64, 64, 0)] = ([b1, b2, b3], p') \<and>
      extent b1 \<noteq> {} \<and> extent b3 = extent b1) \<and>
   (\<exists>b p'. AllocateBuffer sample_pool 64 (2 ^ 32) (2 ^ 32) 0 = (Inr b, p') \<and> sp_offset p' \<in> extent b)"
  by (rule AllocateBuffer_unchecked_size) (simp_all add: sample_pool_def pool_ok_def wrap64_def)

text \<open>
  C35: creating a pool either fails and leaves no descriptor open that was not open
  before, on every path through the three ways to make the file, or succeeds and
  leaves exactly the pool's descriptor open. Closing the pool successfully unmaps the
  memory and closes that descriptor, once.
\<close>

theorem shm_pool_fds:
  assumes "balanced l"
  shows "open_now (snd (CreateShmPool K sz l)) =
      (case fst (CreateShmPool K sz l) of Inl _ \<Rightarrow> open_now l | Inr p \<Rightarrow> add_mset (sp_fd p) (open_now l)) \<and>
    (case ShmPool_Close K q l of
       (None, q', l') \<Rightarrow> sp_data q' = None \<and> sp_fd q' < 0 \<and> ShmPool_Close K q' l' = (None, q', l') \<and>
         closed_fds l' = closed_fds l @ (if 0 \<le> sp_fd q then [sp_fd q] else [])
     | (Some err, q', l') \<Rightarrow> True)"
proof (rule conjI [OF CreateShmPool_fds [OF assms]])
  obtain e q' l' where "ShmPool_Close K q l = (e, q', l')" by (cases "ShmPool_Close K q l")
  then show "case ShmPool_Close K q l of
       (None, q', l') \<Rightarrow> sp_data q' = None \<and> sp_fd q' < 0 \<and> ShmPool_Close K q' l' = (None, q', l') \<and>
         closed_fds l' = closed_fds l @ (if 0 \<le> sp_fd q then [sp_fd q] else [])
     | (Some err, q', l') \<Rightarrow> True"
    using ShmPool_Close_ok [of K q l q' l'] by (cases e) simp_all
qed

theorem shm_pool_fds_witness:
  "open_now (snd (CreateShmPool \<lparr>k_memfd = Inl (SysError 38), k_tmpfile = Inr 7, k_open = Inl (SysError 1),
      k_ftruncate = (\<lambda>_ _. None), k_seals = (\<lambda>_. None), k_mmap = (\<lambda>_ _. Inl (SysError 12)), k_munmap = None,
      k_close = (\<lambda>_. None)\<rparr> 4096 \<lparr>opened = [], closed_fds = []\<rparr>)) = {#}"
  using shm_pool_fds [of "\<lparr>opened = [], closed_fds = []\<rparr>" "\<lparr>k_memfd = Inl (SysError 38), k_tmpfile = Inr 7, k_open = Inl (SysError 1),
      k_ftruncate = (\<lambda>_ _. None), k_seals = (\<lambda>_. None), k_mmap = (\<lambda>_ _. Inl (SysError 12)), k_munmap = None,
      k_close = (\<lambda>_. None)\<rparr>" 4096 sample_pool]
  by (simp add: CreateShmPool_def CreateAnonymousFile_def MapMemory_def balanced_def open_now_def)

end
