(* ===== verification/Wl.thy ===== *)
theory Wl
  imports Connect ErrorText Shm
begin

text \<open>
  The alias package \<^verbatim>\<open>wl/wl.go\<close>, the surface that generated bindings import: every
  type, function and sentinel is another name for one of package wlturbo. The
  wrappers of the argument constructors are definitions; the lemmas show that
  arguments built through the aliases marshal as those of the root package do.
\<close>

section \<open>Aliases\<close>

type_synonym wl_Display = display
type_synonym wl_Registry = registry
type_synonym wl_Context = ctx
type_synonym wl_Object = object
type_synonym wl_BaseProxy = proxy
type_synonym wl_Event = event
type_synonym wl_Global = Global
type_synonym wl_GlobalHandler = globalHandler
type_synonym wl_RegistryGlobalEvent = RegistryGlobalEvent
type_synonym wl_RegistryGlobalRemoveEvent = RegistryGlobalRemoveEvent
type_synonym wl_OwnedFD = OwnedFD
type_synonym wl_Request = Request
type_synonym wl_Arg = Arg

abbreviation (input) wl_Connect ::
  "(string \<Rightarrow> string) \<Rightarrow> (string \<Rightarrow> netConn result) \<Rightarrow> string \<Rightarrow> nat \<Rightarrow> (addr \<Rightarrow> proxy) \<Rightarrow> addr \<Rightarrow>
   error option \<times> display option" where
  "wl_Connect \<equiv> Connect"

abbreviation (input) wl_NewFixed :: "real \<Rightarrow> int option" where
  "wl_NewFixed \<equiv> NewFixed"

abbreviation (input) wl_NewContext :: "nat \<Rightarrow> ctx" where
  "wl_NewContext \<equiv> NewContext"

abbreviation (input) wl_CloseSentFD :: "fd \<Rightarrow> display \<Rightarrow> display" where
  "wl_CloseSentFD \<equiv> CloseSentFD"

abbreviation (input) wl_CheckVersion :: "u32 \<Rightarrow> u32 \<Rightarrow> string \<Rightarrow> error option" where
  "wl_CheckVersion \<equiv> CheckVersion"

abbreviation (input) wl_CreateAnonymousFile :: "kernel \<Rightarrow> int \<Rightarrow> fdlog \<Rightarrow> fd result \<times> fdlog" where
  "wl_CreateAnonymousFile \<equiv> CreateAnonymousFile"

abbreviation (input) wl_MapMemory :: "kernel \<Rightarrow> fd \<Rightarrow> int \<Rightarrow> nat result" where
  "wl_MapMemory \<equiv> MapMemory"

abbreviation (input) wl_UnmapMemory :: "kernel \<Rightarrow> nat \<Rightarrow> error option" where
  "wl_UnmapMemory \<equiv> UnmapMemory"

text \<open>The sentinels, on which \<^verbatim>\<open>errors.Is\<close> works through either package.\<close>

abbreviation (input) wl_ErrMalformedFrame :: error where
  "wl_ErrMalformedFrame \<equiv> ErrMalformedFrame"

abbreviation (input) wl_ErrUnknownObject :: error where
  "wl_ErrUnknownObject \<equiv> ErrUnknownObject"

abbreviation (input) wl_ErrUnknownOpcode :: error where
  "wl_ErrUnknownOpcode \<equiv> ErrUnknownOpcode"

abbreviation (input) wl_ErrDisplayError :: error where
  "wl_ErrDisplayError \<equiv> ErrDisplayError"

abbreviation (input) wl_ErrVersionTooLow :: error where
  "wl_ErrVersionTooLow \<equiv> ErrVersionTooLow"

section \<open>Argument constructors\<close>

definition wl_ArgUint :: "u32 \<Rightarrow> wl_Arg" where
  "wl_ArgUint v = ArgUint v"

definition wl_ArgInt :: "int \<Rightarrow> wl_Arg" where
  "wl_ArgInt v = ArgInt v"

definition wl_ArgFixed :: "int \<Rightarrow> wl_Arg" where
  "wl_ArgFixed v = ArgFixed v"

definition wl_ArgString :: "string \<Rightarrow> wl_Arg" where
  "wl_ArgString v = ArgString v"

definition wl_ArgArray :: "bytes \<Rightarrow> wl_Arg" where
  "wl_ArgArray v = ArgArray v"

definition wl_ArgObject :: "wl_Object option \<Rightarrow> wl_Arg" where
  "wl_ArgObject v = ArgObject v"

definition wl_ArgFD :: wl_Arg where
  "wl_ArgFD = ArgFD"

lemmas wl_Arg_defs = wl_ArgUint_def wl_ArgInt_def wl_ArgFixed_def wl_ArgString_def wl_ArgArray_def
  wl_ArgObject_def wl_ArgFD_def

text \<open>What a binding sends: each constructor contributes the wire form of its value, a descriptor marker none.\<close>

lemma wl_args_wire:
  "body_wire idOf (map boxed [wl_ArgUint u, wl_ArgObject ob, wl_ArgFD]) =
     Some (le32 u @ le32 (case ob of Some x \<Rightarrow> idOf x | None \<Rightarrow> 0))"
  "length s + 1 \<le> 0xffff - HeaderSize \<Longrightarrow>
   body_wire idOf (map boxed [wl_ArgString s]) = Some (string_wire s)"
  by (auto simp: wl_Arg_defs Arg_defs boxed_def goval_wire_def split: option.split)

end
