(* ===== verification/Spec2Isabelle.thy ===== *)
theory Spec2Isabelle
  imports Boundaries Destruction Lifecycle WellFormed Wl
begin

text \<open>
  \<^bold>\<open>A verified model of wlturbo.\<close>

  wlturbo is a Wayland client transport in Go: it encodes requests, frames and
  validates events, passes file descriptors over a Unix socket, keeps the client's
  object table and dispatches events to handlers. This development models the
  package under \<^verbatim>\<open>src/\<close> as HOL functions and proves what makes it correct.

  \<^bold>\<open>Parts of the program and where they are modelled.\<close>

  \<^item> \<^verbatim>\<open>wire.go\<close> (limits, error values, \<^verbatim>\<open>parseHeader\<close>, \<^verbatim>\<open>readFrame\<close>, typed arguments): theory
    Wire. Errors are the datatype \<open>error\<close>; nil is \<open>None\<close> or \<open>Inr\<close>. Their texts, the methods
    \<^verbatim>\<open>Error\<close>, are in theory ErrorText.
  \<^item> The encoders of \<^verbatim>\<open>client.go\<close> (\<^verbatim>\<open>putUint32\<close> to \<^verbatim>\<open>marshalArg\<close>, the marshalling half of
    \<^verbatim>\<open>sendRequest\<close>): theory Marshal, with the reference encoding \<open>body_wire\<close>.
  \<^item> \<^verbatim>\<open>signature.go\<close>: theory Signature, with the reference grammar \<open>body_encoding\<close>.
  \<^item> \<^verbatim>\<open>Event\<close>, its accessors and \<^verbatim>\<open>OwnedFD\<close> (\<^verbatim>\<open>core.go\<close>), \<^verbatim>\<open>Fixed\<close> (\<^verbatim>\<open>client.go\<close>): theory Events.
  \<^item> \<^verbatim>\<open>objects.go\<close>: theory ObjectTable; its contract is the locale \<open>object_table\<close>.
  \<^item> The state of a connection (\<^verbatim>\<open>Display\<close>, \<^verbatim>\<open>Context\<close>, \<^verbatim>\<open>Registry\<close>, proxies), object IDs,
    registration, destruction and \<^verbatim>\<open>Close\<close>: theory Display; the ID allocator's contract is
    the locale \<open>id_allocator\<close>.
  \<^item> The send path (\<^verbatim>\<open>sendmsgWithFDs\<close>, \<^verbatim>\<open>sendRequest\<close>, \<^verbatim>\<open>Context.Request\<close> and its relatives,
    \<^verbatim>\<open>Sync\<close>, \<^verbatim>\<open>ConnectFromConn\<close>): theory Requests.
  \<^item> Control messages (\<^verbatim>\<open>parseFDs\<close>, \<^verbatim>\<open>readControlHeader\<close> of \<^verbatim>\<open>scm_linux.go\<close>): theory Control.
  \<^item> The receive path (\<^verbatim>\<open>readChunk\<close>, \<^verbatim>\<open>fill\<close>, \<^verbatim>\<open>nextFrame\<close>): theory Receive.
  \<^item> The registry (handlers, lookup, \<^verbatim>\<open>Bind\<close>, \<^verbatim>\<open>BindNegotiated\<close>, \<^verbatim>\<open>BindID\<close>): theory Registry.
  \<^item> \<^verbatim>\<open>prepareFrame\<close>, \<^verbatim>\<open>dispatchFrame\<close>, \<^verbatim>\<open>handleDisplayEvent\<close>, \<^verbatim>\<open>Dispatch\<close> and the calls of handlers:
    theory Dispatch; the accounting of received descriptors: theory Accounting.
  \<^item> \<^verbatim>\<open>Roundtrip\<close> and \<^verbatim>\<open>RunTill\<close>: theory Loop.
  \<^item> \<^verbatim>\<open>Connect\<close>, the choice of the socket and the dial: theory Connect; the environment and the
    dial are parameters.
  \<^item> \<^verbatim>\<open>wl/wl.go\<close>, the alias package of the generated bindings: theory Wl.
  \<^item> \<^verbatim>\<open>shm.go\<close> and the memory helpers of \<^verbatim>\<open>scm_linux.go\<close>: theory Shm.
  \<^item> Theory Boundaries: what \<^verbatim>\<open>Dispatch\<close> makes of descriptors that arrive with a read that ends
    before their message.
  \<^item> Theory Session is the sequential use of a connection as an inductive set of
    states. Theory Steps is its concurrent use as a step relation \<open>sys_step\<close>: an operation on both object tables
    is its checks and then two atomic operations (\<open>micro_step\<close>), the guard of a destructor runs so inside the send lock, a
    \<^verbatim>\<open>delete_id\<close> is a load, the removal of the zombie (\<open>bury\<close>) and the update of the ID state (\<open>retire\<close>) inside the ID lock,
    \<^verbatim>\<open>Close\<close> is four steps, and the handlers of a registry event are called one by one. Lemmas show that
    without interference the steps are the sequential operation (\<open>claim_micro\<close>, \<open>begin_micro\<close>, \<open>delete_id_split\<close>,
    \<open>handleGlobal_split\<close>, \<open>sendmsg_split\<close>). Three things are coarser than the code: a sequence of
    reads at the beginning of an operation (\<^verbatim>\<open>CheckProxy\<close>, the checks of \<^verbatim>\<open>Register\<close>) is one step; a write and the closing of the
    socket after a failure are one; and \<^verbatim>\<open>nextFrame\<close> and \<^verbatim>\<open>prepareFrame\<close>, each inside the receive lock,
    are one step each, in which \<^verbatim>\<open>Close\<close> does not mark the display. Theory Concurrent has the invariants of all interleavings, theory Destruction the properties of
    destroyed objects.
  \<^item> Theory Lifecycle is an abstract specification of object IDs and what they stand for, with the
    abstraction \<open>lifecycle_of\<close> and the actions \<open>acts\<close> of a step; theory WellFormed has the receive buffer and the closed flags. Theory
    Prelude has the shared types (bytes, 16-, 32- and 64-bit words), the number formats and lemmas.

  \<^bold>\<open>How the state corresponds.\<close> A \<^verbatim>\<open>Display\<close> with its \<^verbatim>\<open>Context\<close> and \<^verbatim>\<open>Registry\<close> is one record,
  \<open>display\<close>, with a field per Go field. Proxies are Go pointers, so they are
  addresses of the heap \<open>d_heap\<close>, and table entries compare by address. The socket is the
  record \<open>netConn\<close>: it holds the results of the reads and writes to come, so that a
  theorem for all sockets covers every split of the stream into reads, every failing or partial
  write and every order of errors. A read that does not return, because it blocks or because its control data makes
  the parser panic, is \<open>None\<close>. The
  fields \<open>d_recvFDs\<close>, \<open>d_closedFDs\<close>, \<open>d_takenFDs\<close>, \<open>d_sentClosed\<close> and \<open>d_trace\<close> are history.
  Handlers are a parameter, the record \<open>app\<close>: which library calls a handler makes is
  an arbitrary function of the event and the state.

  \<^bold>\<open>What the lemmas show.\<close>

  \<^item> Wire, Marshal, Signature, Events: encoder, framing, validator and accessors against
    the reference encoding and grammar, both directions, and no out-of-range access.
  \<^item> Control, Receive: framing is independent of how the bytes arrive; no descriptor of a
    read is lost; which errors are sticky.
  \<^item> Display, Requests, Registry: IDs are not reused before the compositor releases
    them, the two object tables agree, a send is one whole message or none, what a
    request leaves behind on success and on failure, version negotiation.
  \<^item> The locales \<open>request_invariant\<close>, \<open>receive_invariant\<close>, \<open>api_invariant\<close>,
    \<open>handler_invariant\<close>, \<open>dispatch_invariant\<close>, \<open>connection_invariant\<close> and \<open>system_invariant\<close> each take a property
    that the primitive updates of one layer keep and prove that every operation of the layer keeps it;
    they are interpreted for the ID state, the tables, the descriptors, the stream, the trace and the receive buffer.
  \<^item> Dispatch, Accounting, Loop, Session: who gets which event with which
    descriptors, where every received descriptor ends up, and that the loops end.
  \<^item> Boundaries: the framing does not depend on the split into reads, but whether early descriptors are
    refused as surplus does.
  \<^item> Concurrent, Destruction: the invariants under any interleaving, the agreement of the two tables when operations
    on one ID do not overlap (and that they may disagree when they do), that a destroyed
    object gets no second message and no event but one that was about to be delivered, and that this one can happen.
  \<^item> Lifecycle: every operation on IDs and objects is a step of the specification, and every interleaving is
    a run of it whose actions are determined by the steps taken. WellFormed: no slice of the receive path is out of
    range, the receive buffer is bounded, and the closed flags follow the progress of \<^verbatim>\<open>Close\<close>.
  \<^item> Connect, ErrorText, Wl: which socket is dialled, what a successful \<^verbatim>\<open>Connect\<close> leaves, what an
    error text determines, and that the aliases marshal as the originals do.

  \<^bold>\<open>Bounds and fuel.\<close> Go's \<^verbatim>\<open>uint32\<close>, \<^verbatim>\<open>uint16\<close> and \<^verbatim>\<open>uint64\<close> are words; \<^verbatim>\<open>int\<close> lengths of slices are \<open>nat\<close>, since they
  cannot be negative or reach 2^63; \<^verbatim>\<open>int\<close> arithmetic on caller's numbers (theory Shm)
  wraps at 64 bits. The loop of \<^verbatim>\<open>parseFDs\<close> is the only one with fuel: it depends on
  \<^verbatim>\<open>unix.CmsgSpace\<close>, a parameter, and the length of the buffer plus one is enough whenever
  \<^verbatim>\<open>CmsgSpace\<close> covers the header, which is what its documentation says
  (\<open>cmsg_space_ok\<close>); running out of it and the panic of \<^verbatim>\<open>syscall.ParseUnixRights\<close> are values of the
  datatype \<open>parsed\<close>. \<open>nextFrame\<close> terminates because each turn uses up a read, \<open>roundtrip_loop\<close>
  and \<open>runtill_loop\<close> because each dispatch takes at least eight bytes off the stream.

  \<^bold>\<open>Not modelled.\<close> The buffer pools and the reuse of event records (they affect allocation,
  not values), the mutexes themselves (their critical sections are the steps of theory
  Steps), the memory model of Go for programs with data races, texts outside ASCII under \<^verbatim>\<open>%q\<close>,
  rounding of \<^verbatim>\<open>float64\<close> in the fixed-point conversions, and what the kernel and the
  standard library do behind \<^verbatim>\<open>net.Conn\<close>, the \<^verbatim>\<open>unix\<close> package and the environment, which are parameters.
\<close>

section \<open>From the sender's arguments to the receiver's handler\<close>

text \<open>
  C7: a message that one side marshals from its arguments is framed by the other side
  whatever the reads look like, passes the validation of a signature with the same
  argument types, and the accessors return the arguments; the descriptor count
  of the signature is the number of descriptor arguments.
\<close>

theorem wire_end_to_end:
  assumes "encodeRequest idOf ob oc args vals = Inr msg"
    and "clean U d" "stream d = msg @ rest" "0xffff \<le> unat (maxMessageSize d)"
    and "sig_types sig = Some (map goval_type (args @ map boxed vals))"
  shows "\<exists>f d'. nextFrame U d = Some (Inr f, d') \<and> f_object f = ob \<and> f_opcode f = oc \<and> stream d' = rest \<and>
    fd_stream U d' = fd_stream U d \<and> validateEventBody sig (f_body f) = None \<and>
    count_fd sig = count_list (map goval_type (args @ map boxed vals)) TFd \<and>
    list_all2 (\<lambda>v g. goval_type g \<noteq> TFd \<longrightarrow> v = goval_value idOf g)
      (fst (read_args (map goval_type (args @ map boxed vals)) (newEvent ob oc (f_body f) fds)))
      (args @ map boxed vals)"
proof -
  let ?gs = "args @ map boxed vals"
  obtain f where f: "wf_frame f" "msg = message_bytes f" "f_object f = ob" "f_opcode f = oc"
      "body_wire idOf ?gs = Some (f_body f)"
    using encodeRequest_wf [OF assms(1)] by blast
  have acc: "accepts d f" using f(1) assms(4) by (simp add: accepts_def wf_frame_def)
  obtain d' where d': "nextFrame U d = Some (Inr f, d')" "stream d' = rest" "fd_stream U d' = fd_stream U d"
    using nextFrame_message [OF assms(2) assms(3) [unfolded f(2)] acc] by metis
  have len: "length (f_body f) < 2 ^ 32" using f(1) by (simp add: wf_frame_def frame_size_def)
  have "validateEventBody sig (f_body f) = None"
    using body_wire_encoding [OF f(5)] validate_loop_iff [of 0 "f_body f" sig] assms(5)
    by (simp add: validateEventBody_def del: body_encoding.simps arg_encoding.simps)
  then show ?thesis
    using d' f count_fd_types [OF assms(5)] read_args_wire [OF f(5), of "newEvent ob oc (f_body f) fds" "[]"] len
    by (intro exI [of _ f] exI [of _ d']) (simp add: newEvent_def)
qed

theorem wire_end_to_end_witness:
  "\<exists>f d'. nextFrame linux_unix (received [\<lparr>f_object = 3, f_opcode = 1, f_body = le32 5\<rparr>]) = Some (Inr f, d') \<and>
     f_object f = 3 \<and> f_opcode f = 1 \<and> stream d' = [] \<and> validateEventBody ''uint,fd,'' (f_body f) = None"
proof -
  let ?m = "message_bytes \<lparr>f_object = 3, f_opcode = 1, f_body = le32 5\<rparr>"
  let ?d = "received [\<lparr>f_object = 3, f_opcode = 1, f_body = le32 5\<rparr>]"
  have e: "encodeRequest (\<lambda>_. 0) 3 1 [GUint32 5] [ArgFD] = Inr ?m"
    by (simp add: encodeRequest_Inr goval_wire_def boxed_def Arg_defs HeaderSize_def)
  have s: "stream ?d = ?m @ []" by (simp add: received_clean)
  have g: "sig_types ''uint,fd,'' = Some (map goval_type ([GUint32 5] @ map boxed [ArgFD]))"
    by (simp add: validate_eval goval_type_def boxed_def Arg_defs)
  show ?thesis
    using wire_end_to_end [OF e received_clean(1) s _ g, where U = linux_unix and fds = "[]"] received_clean(4)
    by (simp del: map_append read_args.simps) blast
qed

section \<open>The life of an object ID\<close>

text \<open>Library calls of the application and \<^verbatim>\<open>delete_id\<close> events of the compositor, in any order.\<close>

fun run_use :: "(api + u32) list \<Rightarrow> display \<Rightarrow> display" where
  "run_use [] d = d"
| "run_use (Inl x # us) d = run_use us (run_api x d)"
| "run_use (Inr i # us) d = run_use us (snd (delete_id d i))"

text \<open>An ID in use stays in use under library calls, and is not allocated.\<close>

interpretation in_use: api_invariant "\<lambda>d. id_inv d \<and> i \<in> used_ids d" for i
proof unfold_locales
  fix d
  assume "id_inv d \<and> i \<in> used_ids d"
  then show "id_inv (snd (allocateID d)) \<and> i \<in> used_ids (snd (allocateID d))"
    by (cases d rule: allocateID_cases) (auto simp: id_inv_def used_ids_def word_less_inc)
qed (auto simp: id_inv_def used_ids_def op_defs Let_def case_prod_beta split: option.splits)

lemma in_use_not_allocated: "id_inv d \<Longrightarrow> i \<in> used_ids d \<Longrightarrow> fst (allocateID d) \<noteq> i"
  by (cases d rule: allocateID_cases) (auto simp: id_inv_def used_ids_def)

lemma in_use_delete_id:
  assumes "id_inv d" "i \<in> used_ids d" "j \<noteq> i"
  shows "id_inv (snd (delete_id d j)) \<and> i \<in> used_ids (snd (delete_id d j))"
  using assms id_inv_delete_id [OF assms(1), of j] id_state_delete_id [of d j]
  by (cases "fst (delete_id d j) = None") (simp_all add: used_ids_def id_state_def)

lemma in_use_run: "id_inv d \<Longrightarrow> i \<in> used_ids d \<Longrightarrow> Inr i \<notin> set us \<Longrightarrow> id_inv (run_use us d) \<and> i \<in> used_ids (run_use us d)"
proof (induction us arbitrary: d)
  case (Cons u us)
  then show ?case using in_use.run_api [of d i] in_use_delete_id [of d i] by (cases u) auto
qed simp

text \<open>
  C20: the ID of an object the client destroys is recycled by the compositor's
  acknowledgement and by nothing else. While the object is alive a \<^verbatim>\<open>delete_id\<close> for its
  ID is a protocol error; after the destructor was sent it succeeds, removes the
  zombie, and the next allocation returns the ID. Without a \<^verbatim>\<open>delete_id\<close> for it, no allocation returns the ID after
  any sequence of library calls and of \<^verbatim>\<open>delete_id\<close> events for other IDs.
\<close>

theorem destroyed_id_recycled:
  assumes "id_inv d" "tables_inv d" "pid d a \<in> used_ids d"
    and "fst (SendDestructorWithFDs d (Some a) oc fds args) = None"
  shows "fst (delete_id d (pid d a)) \<noteq> None \<and>
    (let d1 = snd (SendDestructorWithFDs d (Some a) oc fds args); (e, d2) = delete_id d1 (pid d a)
     in e = None \<and> objectAt d2 (pid d a) = None \<and> proxyAt d2 (pid d a) = None \<and> fst (allocateID d2) = pid d a \<and>
        (\<forall>us. Inr (pid d a) \<notin> set us \<longrightarrow> fst (allocateID (run_use us d1)) \<noteq> pid d a))"
proof -
  let ?i = "pid d a" and ?d1 = "snd (SendDestructorWithFDs d (Some a) oc fds args)"
  have ok: "CheckProxy d (Some a) = None"
    using assms(4) by (auto simp: SendDestructorWithFDs_def sendChecked_def split: option.splits)
  then have "objectAt d ?i = Some (ProxyObj a)" using assms(2) by (auto simp: CheckProxy_None tables_inv_def)
  then have live: "fst (delete_id d ?i) \<noteq> None" by (simp add: delete_id_ok)
  obtain c where d1: "?d1 = (snd (claimDestroy d (Some a)))\<lparr>d_conn := c\<rparr>" "fst (claimDestroy d (Some a)) = None"
    using assms(4) unfolding SendDestructorWithFDs_def
    by (cases rule: sendChecked_outcome [of "Some a" d oc fds DestroyCheck args "[]"]) auto
  have z: "objectAt ?d1 ?i = Some (ZombieObj a)" "proxyAt ?d1 ?i = None"
    using claimDestroy_zombie [OF assms(2) d1(2)] d1(1) by simp_all
  have st: "id_state ?d1 = id_state d" using d1(1) by (simp add: id_state_def claimDestroy_ok [OF ok])
  have r: "?i < 0xff000000" using assms(1,3) by (auto simp: id_inv_def used_ids_def)
  have e: "fst (delete_id ?d1 ?i) = None"
    using st z assms(1,3) r by (auto simp: delete_id_ok id_state_def id_inv_def used_ids_def)
  have "fst (allocateID (snd (delete_id ?d1 ?i))) = ?i"
    using id_state_delete_id [of ?d1 ?i] e by (simp add: id_state_def allocateID_def Let_def)
  moreover have "objectAt (snd (delete_id ?d1 ?i)) ?i = None" "proxyAt (snd (delete_id ?d1 ?i)) ?i = None"
    using z by (simp_all add: delete_id_def Let_def)
  moreover have "id_inv ?d1" "?i \<in> used_ids ?d1"
    using assms(1,3) id_inv_cong [OF st] st by (simp_all add: used_ids_def id_state_def)
  then have "\<forall>us. Inr ?i \<notin> set us \<longrightarrow> fst (allocateID (run_use us ?d1)) \<noteq> ?i"
    using in_use_run in_use_not_allocated by blast
  ultimately show ?thesis using live e by (cases "delete_id ?d1 ?i") simp
qed

theorem destroyed_id_recycled_witness:
  "let d1 = snd (SendDestructorWithFDs one_proxy_display (Some 0) 0 [] [])
   in fst (allocateID (snd (delete_id d1 3))) = 3 \<and> fst (allocateID (run_use [Inl ApiAllocateID, Inr 4] d1)) \<noteq> 3"
proof -
  have p: "pid one_proxy_display 0 = 3" by (simp add: display_eval)
  have "pid one_proxy_display 0 \<in> used_ids one_proxy_display" by (simp add: used_ids_def p) (simp add: display_eval)
  moreover have "fst (SendDestructorWithFDs one_proxy_display (Some 0) 0 [] []) = None"
    by (simp add: SendDestructorWithFDs_def sendChecked_def one_proxy_display_inv(4) sendRequest_def encodeRequest_def
        HeaderSize_def sendmsgWithFDs_def claimDestroy_ok Let_def conn_Write_def) (simp add: display_eval)
  ultimately have "fst (allocateID (snd (delete_id (snd (SendDestructorWithFDs one_proxy_display (Some 0) 0 [] [])) 3))) = 3"
      "\<forall>us. Inr 3 \<notin> set us \<longrightarrow>
        fst (allocateID (run_use us (snd (SendDestructorWithFDs one_proxy_display (Some 0) 0 [] [])))) \<noteq> 3"
    using destroyed_id_recycled [OF one_proxy_display_inv(2,1), of 0 0 "[]" "[]"] by (auto simp: p Let_def split: prod.splits)
  moreover have "Inr 3 \<notin> set [Inl ApiAllocateID, Inr (4 :: u32)]" by simp
  ultimately show ?thesis by (metis (no_types))
qed

end
